theory Spec2Isabelle
  imports Main "HOL-Library.Word" "HOL-Library.Multiset"
begin

section \<open>Effects of caller-supplied callables\<close>

text \<open>
  Every algorithm of \<^verbatim>\<open>by_key.hpp\<close> walks its range once and calls the projections
  the caller handed in. A projection is an arbitrary C++ callable: it may throw, and it may
  read and write state outside the algorithm (a counter captured by a mutable lambda, a
  variable captured by reference, the element itself when it is taken by non-const
  reference). A computation is therefore a function from the state \<open>'s\<close> before the
  call to an outcome and the state after it; the outcome is \<open>Inl e\<close> when the exception
  \<open>e\<close> leaves the call and \<open>Inr a\<close> when the call returns \<open>a\<close>. State written
  before a throw stays written, as in C++.
\<close>

type_synonym ('x, 's, 'a) eff = "'s \<Rightarrow> ('x + 'a) \<times> 's"

definition ret :: "'a \<Rightarrow> ('x, 's, 'a) eff" where
  "ret a = (\<lambda>s. (Inr a, s))"

definition and_then :: "('x, 's, 'a) eff \<Rightarrow> ('a \<Rightarrow> ('x, 's, 'b) eff) \<Rightarrow> ('x, 's, 'b) eff" where
  "and_then m f = (\<lambda>s. case m s of (Inl e, s1) \<Rightarrow> (Inl e, s1) | (Inr a, s1) \<Rightarrow> f a s1)"

text \<open>
  The range-based loop \<^verbatim>\<open>for (auto&& x : r) { ... }\<close>: the body is run on every element
  in sequence order, it updates the local the loop builds (\<open>acc\<close>), and an exception leaving
  the body leaves the loop.
\<close>

fun for_each :: "'e list \<Rightarrow> ('e \<Rightarrow> 'a \<Rightarrow> ('x, 's, 'a) eff) \<Rightarrow> 'a \<Rightarrow> ('x, 's, 'a) eff" where
  "for_each [] body acc s = (Inr acc, s)"
| "for_each (x # r) body acc s =
     (case body x acc s of
        (Inl e, s1) \<Rightarrow> (Inl e, s1)
      | (Inr acc1, s1) \<Rightarrow> for_each r body acc1 s1)"

text \<open>
  Two kinds of well-behaved callable a caller may supply: one without effects, and one that
  reads and writes state but never throws.
\<close>

definition pure_proj :: "('e \<Rightarrow> 'r) \<Rightarrow> 'e \<Rightarrow> ('x, 's, 'r) eff" where
  "pure_proj f x = ret (f x)"

definition total :: "('s \<Rightarrow> 'a \<times> 's) \<Rightarrow> ('x, 's, 'a) eff" where
  "total m = (\<lambda>s. (Inr (fst (m s)), snd (m s)))"

definition stateful :: "('e \<Rightarrow> 's \<Rightarrow> 'r \<times> 's) \<Rightarrow> 'e \<Rightarrow> ('x, 's, 'r) eff" where
  "stateful f x = total (f x)"

text \<open>
  An observer for calls: the callable is wrapped so that every call, whether it returns or
  throws, appends an event to a log kept beside the callable's own state.
\<close>

datatype 'e call = KeyCall 'e | ValueCall 'e | OrderCall 'e | PredCall 'e | IdentityCall | CombineCall

definition logged :: "'ev \<Rightarrow> ('x, 's, 'a) eff \<Rightarrow> ('x, 's \<times> 'ev list, 'a) eff" where
  "logged ev m = (\<lambda>(s, log). case m s of (r, s1) \<Rightarrow> (r, (s1, log @ [ev])))"

text \<open>A defaulted argument: \<open>None\<close> when the call site leaves it out.\<close>

definition defaulted :: "'a \<Rightarrow> 'a option \<Rightarrow> 'a" where
  "defaulted d arg = (case arg of None \<Rightarrow> d | Some v \<Rightarrow> v)"


section \<open>The standard associative container\<close>

text \<open>
  \<^verbatim>\<open>std::unordered_map<K, V>\<close> holds at most one entry per key: a partial function.
  \<^verbatim>\<open>try_emplace(k, d)\<close> inserts \<open>d\<close> when \<open>k\<close> is absent and leaves the map alone
  otherwise; it returns the entry (here: the mapped value the iterator points to) and whether
  it inserted. \<^verbatim>\<open>emplace\<close> with a key and a value behaves alike, and \<^verbatim>\<open>m[k]\<close>
  is \<^verbatim>\<open>try_emplace(k)\<close> with a value-initialised mapped value.
  \<^verbatim>\<open>detail::try_reserve\<close> and \<^verbatim>\<open>detail::size_hint\<close> only reserve buckets; the
  capacity is no part of the map's value, so the \<^verbatim>\<open>expected_unique\<close> argument has no
  counterpart here.
\<close>

definition try_emplace :: "('k \<rightharpoonup> 'a) \<Rightarrow> 'k \<Rightarrow> 'a \<Rightarrow> ('k \<rightharpoonup> 'a) \<times> 'a \<times> bool" where
  "try_emplace m k d = (case m k of None \<Rightarrow> (m(k \<mapsto> d), d, True) | Some a \<Rightarrow> (m, a, False))"

definition emplace :: "('k \<rightharpoonup> 'a) \<Rightarrow> 'k \<Rightarrow> 'a \<Rightarrow> ('k \<rightharpoonup> 'a)" where
  "emplace m k v = fst (try_emplace m k v)"


section \<open>Core algorithms\<close>

subsection \<open>\<^verbatim>\<open>count_by\<close>\<close>

text \<open>
  \<^verbatim>\<open>for (auto&& x : r) ++freq[key_proj(x)];\<close> The counters are \<^verbatim>\<open>std::size_t\<close>,
  an unsigned integer of \<open>LENGTH('w)\<close> bits whose increment wraps around.
\<close>

definition increment :: "('k \<rightharpoonup> 'w::len word) \<Rightarrow> 'k \<Rightarrow> ('k \<rightharpoonup> 'w word)" where
  "increment freq k = (case try_emplace freq k 0 of (freq1, c, inserted) \<Rightarrow> freq1(k \<mapsto> c + 1))"

definition count_by_body :: "('e \<Rightarrow> ('x, 's, 'k) eff) \<Rightarrow> 'e \<Rightarrow> ('k \<rightharpoonup> 'w::len word) \<Rightarrow> ('x, 's, 'k \<rightharpoonup> 'w word) eff" where
  "count_by_body key x freq = and_then (key x) (\<lambda>k. ret (increment freq k))"

definition count_by :: "'e list \<Rightarrow> ('e \<Rightarrow> ('x, 's, 'k) eff) \<Rightarrow> ('x, 's, 'k \<rightharpoonup> 'w::len word) eff" where
  "count_by r key = for_each r (count_by_body key) Map.empty"


subsection \<open>\<^verbatim>\<open>index_by_into\<close>, \<^verbatim>\<open>index_by\<close>\<close>

text \<open>
  \<^verbatim>\<open>if (overwrite) m[key_value] = std::move(val_value); else m.emplace(...)\<close>.
  The flag is declared \<^verbatim>\<open>bool overwrite = true\<close> in both functions.
\<close>

definition index_by_into_body ::
  "('e \<Rightarrow> ('x, 's, 'k) eff) \<Rightarrow> ('e \<Rightarrow> ('x, 's, 'v) eff) \<Rightarrow> bool \<Rightarrow> 'e \<Rightarrow> ('k \<rightharpoonup> 'v) \<Rightarrow> ('x, 's, 'k \<rightharpoonup> 'v) eff" where
  "index_by_into_body key val overwrite x m =
     and_then (key x) (\<lambda>key_value.
     and_then (val x) (\<lambda>val_value.
       if overwrite then ret (m(key_value \<mapsto> val_value))
       else ret (emplace m key_value val_value)))"

definition index_by_into ::
  "'e list \<Rightarrow> ('e \<Rightarrow> ('x, 's, 'k) eff) \<Rightarrow> ('e \<Rightarrow> ('x, 's, 'v) eff) \<Rightarrow> ('k \<rightharpoonup> 'v) \<Rightarrow> bool option \<Rightarrow> ('x, 's, 'k \<rightharpoonup> 'v) eff" where
  "index_by_into r key val m overwrite =
     for_each r (index_by_into_body key val (defaulted True overwrite)) m"

definition index_by ::
  "'e list \<Rightarrow> ('e \<Rightarrow> ('x, 's, 'k) eff) \<Rightarrow> ('e \<Rightarrow> ('x, 's, 'v) eff) \<Rightarrow> bool option \<Rightarrow> ('x, 's, 'k \<rightharpoonup> 'v) eff" where
  "index_by r key val overwrite =
     index_by_into r key val Map.empty (Some (defaulted True overwrite))"

subsection \<open>\<^verbatim>\<open>group_reduce_by\<close>\<close>

text \<open>
  \<^verbatim>\<open>auto [it, inserted] = m.try_emplace(key_value, init); op_fn(it->second, std::move(value_copy));\<close>
  The reducer receives the accumulator by reference; here it returns the accumulator it
  leaves behind.
\<close>

definition group_reduce_by_body ::
  "('e \<Rightarrow> ('x, 's, 'k) eff) \<Rightarrow> ('e \<Rightarrow> ('x, 's, 'v) eff) \<Rightarrow> 'acc \<Rightarrow> ('acc \<Rightarrow> 'v \<Rightarrow> ('x, 's, 'acc) eff)
     \<Rightarrow> 'e \<Rightarrow> ('k \<rightharpoonup> 'acc) \<Rightarrow> ('x, 's, 'k \<rightharpoonup> 'acc) eff" where
  "group_reduce_by_body key val init op x m =
     and_then (key x) (\<lambda>key_value.
     and_then (val x) (\<lambda>value_copy.
       case try_emplace m key_value init of (m1, acc0, inserted) \<Rightarrow>
         and_then (op acc0 value_copy) (\<lambda>acc1. ret (m1(key_value \<mapsto> acc1)))))"

definition group_reduce_by ::
  "'e list \<Rightarrow> ('e \<Rightarrow> ('x, 's, 'k) eff) \<Rightarrow> ('e \<Rightarrow> ('x, 's, 'v) eff) \<Rightarrow> 'acc \<Rightarrow> ('acc \<Rightarrow> 'v \<Rightarrow> ('x, 's, 'acc) eff)
     \<Rightarrow> ('x, 's, 'k \<rightharpoonup> 'acc) eff" where
  "group_reduce_by r key val init op = for_each r (group_reduce_by_body key val init op) Map.empty"


section \<open>Convenience algorithms\<close>

subsection \<open>\<^verbatim>\<open>group_by_into\<close>, \<^verbatim>\<open>group_by\<close>\<close>

text \<open>\<^verbatim>\<open>m[key_value].push_back(std::move(val_value));\<close>\<close>

definition group_by_into_body ::
  "('e \<Rightarrow> ('x, 's, 'k) eff) \<Rightarrow> ('e \<Rightarrow> ('x, 's, 'v) eff) \<Rightarrow> 'e \<Rightarrow> ('k \<rightharpoonup> 'v list) \<Rightarrow> ('x, 's, 'k \<rightharpoonup> 'v list) eff" where
  "group_by_into_body key val x m =
     and_then (key x) (\<lambda>key_value.
     and_then (val x) (\<lambda>val_value.
       case try_emplace m key_value [] of (m1, bucket, inserted) \<Rightarrow>
         ret (m1(key_value \<mapsto> bucket @ [val_value]))))"

definition group_by_into ::
  "'e list \<Rightarrow> ('e \<Rightarrow> ('x, 's, 'k) eff) \<Rightarrow> ('e \<Rightarrow> ('x, 's, 'v) eff) \<Rightarrow> ('k \<rightharpoonup> 'v list) \<Rightarrow> ('x, 's, 'k \<rightharpoonup> 'v list) eff" where
  "group_by_into r key val m = for_each r (group_by_into_body key val) m"

definition group_by ::
  "'e list \<Rightarrow> ('e \<Rightarrow> ('x, 's, 'k) eff) \<Rightarrow> ('e \<Rightarrow> ('x, 's, 'v) eff) \<Rightarrow> ('x, 's, 'k \<rightharpoonup> 'v list) eff" where
  "group_by r key val = group_by_into r key val Map.empty"

subsection \<open>\<^verbatim>\<open>transform_reduce_by\<close>, \<^verbatim>\<open>accumulate_by\<close>\<close>

text \<open>
  A traits object offers \<^verbatim>\<open>identity()\<close> and \<^verbatim>\<open>combine(acc, v)\<close>, the latter
  updating the accumulator it is given by reference, and perhaps \<^verbatim>\<open>finalize(acc)\<close>.
  Whether \<^verbatim>\<open>finalize\<close> exists is decided when the template is instantiated
  (\<^verbatim>\<open>if constexpr (has_finalize<Traits, Acc>)\<close>), so the two instances are two
  functions over one loop. The finalising loop walks the accumulator map in the container's
  unspecified order; its result is determined for a \<^verbatim>\<open>finalize\<close> without effects,
  which is all that is modelled.
\<close>

record ('x, 's, 'acc, 'v) traits =
  identity :: "('x, 's, 'acc) eff"
  combine :: "'acc \<Rightarrow> 'v \<Rightarrow> ('x, 's, 'acc) eff"

record ('x, 's, 'acc, 'v, 'res) finalizing_traits = "('x, 's, 'acc, 'v) traits" +
  finalize :: "'acc \<Rightarrow> 'res"

text \<open>\<^verbatim>\<open>detail::sum_traits<T>\<close>: \<^verbatim>\<open>T{}\<close> and \<^verbatim>\<open>acc += static_cast<T>(v)\<close>.\<close>

definition sum_traits :: "('x, 's, 'acc::{zero,plus}, 'acc) traits" where
  "sum_traits = \<lparr>identity = ret 0, combine = (\<lambda>acc v. ret (acc + v))\<rparr>"

text \<open>
  \<^verbatim>\<open>detail::basic_transform_traits<Acc, BinaryOp>\<close>: \<^verbatim>\<open>identity()\<close> returns a copy
  of \<^verbatim>\<open>init\<close>, \<^verbatim>\<open>combine\<close> assigns \<^verbatim>\<open>combine_op(acc, v)\<close> to the accumulator.
\<close>

definition basic_transform_traits :: "'acc \<Rightarrow> ('acc \<Rightarrow> 'v \<Rightarrow> ('x, 's, 'acc) eff) \<Rightarrow> ('x, 's, 'acc, 'v) traits" where
  "basic_transform_traits init combine_op =
     \<lparr>identity = ret init,
      combine = (\<lambda>acc v. and_then (combine_op acc v) (\<lambda>acc1. ret acc1))\<rparr>"

text \<open>
  The loop of \<^verbatim>\<open>detail::transform_reduce_by_impl\<close>. The argument
  \<^verbatim>\<open>traits_copy.identity()\<close> of \<^verbatim>\<open>try_emplace\<close> is evaluated for every element,
  before the lookup.
\<close>

definition transform_reduce_by_body ::
  "('e \<Rightarrow> ('x, 's, 'k) eff) \<Rightarrow> ('e \<Rightarrow> ('x, 's, 'v) eff) \<Rightarrow> ('x, 's, 'acc, 'v, 'm) traits_scheme
     \<Rightarrow> 'e \<Rightarrow> ('k \<rightharpoonup> 'acc) \<Rightarrow> ('x, 's, 'k \<rightharpoonup> 'acc) eff" where
  "transform_reduce_by_body key val traits_copy x accs =
     and_then (key x) (\<lambda>key_value.
     and_then (val x) (\<lambda>value_copy.
     and_then (identity traits_copy) (\<lambda>fresh.
       case try_emplace accs key_value fresh of (accs1, acc0, inserted) \<Rightarrow>
         and_then (combine traits_copy acc0 value_copy) (\<lambda>acc1. ret (accs1(key_value \<mapsto> acc1))))))"

definition transform_reduce_by_impl ::
  "'e list \<Rightarrow> ('e \<Rightarrow> ('x, 's, 'k) eff) \<Rightarrow> ('e \<Rightarrow> ('x, 's, 'v) eff) \<Rightarrow> ('x, 's, 'acc, 'v) traits
     \<Rightarrow> ('x, 's, 'k \<rightharpoonup> 'acc) eff" where
  "transform_reduce_by_impl r key val traits =
     for_each r (transform_reduce_by_body key val traits) Map.empty"

definition transform_reduce_by_impl_finalize ::
  "'e list \<Rightarrow> ('e \<Rightarrow> ('x, 's, 'k) eff) \<Rightarrow> ('e \<Rightarrow> ('x, 's, 'v) eff) \<Rightarrow> ('x, 's, 'acc, 'v, 'res) finalizing_traits
     \<Rightarrow> ('x, 's, 'k \<rightharpoonup> 'res) eff" where
  "transform_reduce_by_impl_finalize r key val traits =
     and_then (for_each r (transform_reduce_by_body key val traits) Map.empty) (\<lambda>accs.
       ret (\<lambda>k. map_option (finalize traits) (accs k)))"

text \<open>
  The two overloads of \<^verbatim>\<open>transform_reduce_by\<close>: with a traits object (here the
  instance without \<^verbatim>\<open>finalize\<close>, and the one with), and with an initial value and a
  binary operator.
\<close>

definition transform_reduce_by ::
  "'e list \<Rightarrow> ('e \<Rightarrow> ('x, 's, 'k) eff) \<Rightarrow> ('e \<Rightarrow> ('x, 's, 'v) eff) \<Rightarrow> ('x, 's, 'acc, 'v) traits
     \<Rightarrow> ('x, 's, 'k \<rightharpoonup> 'acc) eff" where
  "transform_reduce_by r key val traits = transform_reduce_by_impl r key val traits"

definition transform_reduce_by_finalize ::
  "'e list \<Rightarrow> ('e \<Rightarrow> ('x, 's, 'k) eff) \<Rightarrow> ('e \<Rightarrow> ('x, 's, 'v) eff) \<Rightarrow> ('x, 's, 'acc, 'v, 'res) finalizing_traits
     \<Rightarrow> ('x, 's, 'k \<rightharpoonup> 'res) eff" where
  "transform_reduce_by_finalize r key val traits = transform_reduce_by_impl_finalize r key val traits"

definition transform_reduce_by_init ::
  "'e list \<Rightarrow> ('e \<Rightarrow> ('x, 's, 'k) eff) \<Rightarrow> ('e \<Rightarrow> ('x, 's, 'v) eff) \<Rightarrow> 'acc \<Rightarrow> ('acc \<Rightarrow> 'v \<Rightarrow> ('x, 's, 'acc) eff)
     \<Rightarrow> ('x, 's, 'k \<rightharpoonup> 'acc) eff" where
  "transform_reduce_by_init r key val init combine_op =
     (let traits = basic_transform_traits init combine_op
      in transform_reduce_by_impl r key val traits)"

text \<open>
  The two overloads of \<^verbatim>\<open>accumulate_by\<close>; \<^verbatim>\<open>std::plus<>{}\<close> is the operator of
  the second.
\<close>

definition accumulate_by ::
  "'e list \<Rightarrow> ('e \<Rightarrow> ('x, 's, 'k) eff) \<Rightarrow> ('e \<Rightarrow> ('x, 's, 'v) eff) \<Rightarrow> ('x, 's, 'k \<rightharpoonup> 'v::{zero,plus}) eff" where
  "accumulate_by r key val = transform_reduce_by r key val sum_traits"

definition accumulate_by_init ::
  "'e list \<Rightarrow> ('e \<Rightarrow> ('x, 's, 'k) eff) \<Rightarrow> ('e \<Rightarrow> ('x, 's, 'v) eff) \<Rightarrow> 'v \<Rightarrow> ('x, 's, 'k \<rightharpoonup> 'v::plus) eff" where
  "accumulate_by_init r key val init =
     transform_reduce_by_init r key val init (\<lambda>a b. ret (a + b))"

subsection \<open>\<^verbatim>\<open>extrema_by\<close>, \<^verbatim>\<open>minmax_by\<close>\<close>

record ('v, 'o) extrema_state =
  min_value :: 'v
  min_order :: 'o
  max_value :: 'v
  max_order :: 'o

text \<open>\<^verbatim>\<open>extrema_result<Value>\<close>, with fields \<^verbatim>\<open>min\<close> and \<^verbatim>\<open>max\<close>.\<close>

record 'v extrema_result =
  min_r :: 'v
  max_r :: 'v

text \<open>
  The projections are called in the order key, order, value. A caller who leaves the last
  arguments out gets a default-constructed value projection as order projection and
  \<^verbatim>\<open>std::ranges::less\<close> as comparator.
\<close>

definition ranges_less :: "'o::ord \<Rightarrow> 'o \<Rightarrow> bool" where
  "ranges_less a b = (a < b)"

text \<open>
  What the loop body does to the map once the three projections have returned:
  \<^verbatim>\<open>try_emplace\<close> of a state holding the new value and order twice, and, when the key
  was already present, the two comparisons.
\<close>

definition extrema_update ::
  "('o \<Rightarrow> 'o \<Rightarrow> bool) \<Rightarrow> ('k \<rightharpoonup> ('v, 'o) extrema_state) \<Rightarrow> 'k \<Rightarrow> 'o \<Rightarrow> 'v \<Rightarrow> ('k \<rightharpoonup> ('v, 'o) extrema_state)" where
  "extrema_update compare states key_value order_value val_value =
     (case try_emplace states key_value
              \<lparr>min_value = val_value, min_order = order_value,
               max_value = val_value, max_order = order_value\<rparr> of
        (states1, st, inserted) \<Rightarrow>
          if \<not> inserted then
            (let st1 = (if compare order_value (min_order st)
                        then st\<lparr>min_order := order_value, min_value := val_value\<rparr> else st);
                 st2 = (if compare (max_order st1) order_value
                        then st1\<lparr>max_order := order_value, max_value := val_value\<rparr> else st1)
             in states1(key_value \<mapsto> st2))
          else states1)"

definition extrema_by_body ::
  "('e \<Rightarrow> ('x, 's, 'k) eff) \<Rightarrow> ('e \<Rightarrow> ('x, 's, 'v) eff) \<Rightarrow> ('e \<Rightarrow> ('x, 's, 'o) eff) \<Rightarrow> ('o \<Rightarrow> 'o \<Rightarrow> bool)
     \<Rightarrow> 'e \<Rightarrow> ('k \<rightharpoonup> ('v, 'o) extrema_state) \<Rightarrow> ('x, 's, 'k \<rightharpoonup> ('v, 'o) extrema_state) eff" where
  "extrema_by_body key val order compare x states =
     and_then (key x) (\<lambda>key_value.
     and_then (order x) (\<lambda>order_value.
     and_then (val x) (\<lambda>val_value.
       ret (extrema_update compare states key_value order_value val_value))))"

definition extrema_by ::
  "'e list \<Rightarrow> ('e \<Rightarrow> ('x, 's, 'k) eff) \<Rightarrow> ('e \<Rightarrow> ('x, 's, 'v) eff) \<Rightarrow> ('e \<Rightarrow> ('x, 's, 'o) eff) \<Rightarrow> ('o \<Rightarrow> 'o \<Rightarrow> bool)
     \<Rightarrow> ('x, 's, 'k \<rightharpoonup> 'v extrema_result) eff" where
  "extrema_by r key val order compare =
     and_then (for_each r (extrema_by_body key val order compare) Map.empty) (\<lambda>states.
       ret (\<lambda>k. map_option (\<lambda>st. \<lparr>min_r = min_value st, max_r = max_value st\<rparr>) (states k)))"

definition minmax_by ::
  "'e list \<Rightarrow> ('e \<Rightarrow> ('x, 's, 'k) eff) \<Rightarrow> ('e \<Rightarrow> ('x, 's, 'v) eff) \<Rightarrow> ('e \<Rightarrow> ('x, 's, 'o) eff) \<Rightarrow> ('o \<Rightarrow> 'o \<Rightarrow> bool)
     \<Rightarrow> ('x, 's, 'k \<rightharpoonup> 'v extrema_result) eff" where
  "minmax_by r key val order compare = extrema_by r key val order compare"

subsection \<open>\<^verbatim>\<open>to_sorted_pairs\<close>, \<^verbatim>\<open>top_k\<close> and its instances\<close>

text \<open>
  These helpers read a finished map by iterating over it. The map argument is the sequence
  of its entries in the order the container yields them, which the standard leaves open:
  a list of pairs with pairwise distinct keys.

  \<^verbatim>\<open>std::ranges::sort\<close> is the standard library's. The standard fixes its result only
  as a rearrangement of the input in which no element is ordered before its predecessor;
  insertion is one algorithm that meets this, and for a comparator that relates any two
  different elements the sorted rearrangement is the only one (\<open>sorted_rearrangement_unique\<close>
  below).
\<close>

fun insert_sorted :: "('a \<Rightarrow> 'a \<Rightarrow> bool) \<Rightarrow> 'a \<Rightarrow> 'a list \<Rightarrow> 'a list" where
  "insert_sorted cmp a [] = [a]"
| "insert_sorted cmp a (b # bs) = (if cmp a b then a # b # bs else b # insert_sorted cmp a bs)"

fun ranges_sort :: "'a list \<Rightarrow> ('a \<Rightarrow> 'a \<Rightarrow> bool) \<Rightarrow> 'a list" where
  "ranges_sort [] cmp = []"
| "ranges_sort (a # as) cmp = insert_sorted cmp a (ranges_sort as cmp)"

definition to_sorted_pairs :: "('k \<times> 'v) list \<Rightarrow> ('k \<times> 'v \<Rightarrow> 'k \<times> 'v \<Rightarrow> bool) \<Rightarrow> ('k \<times> 'v) list" where
  "to_sorted_pairs m cmp = (let out = map (\<lambda>kv. (fst kv, snd kv)) m in ranges_sort out cmp)"

definition top_k :: "('k \<times> 'v) list \<Rightarrow> nat \<Rightarrow> ('k \<times> 'v \<Rightarrow> 'k \<times> 'v \<Rightarrow> bool) \<Rightarrow> ('k \<times> 'v) list" where
  "top_k m k cmp = (let v = to_sorted_pairs m cmp in if length v > k then take k v else v)"

text \<open>The comparator \<^verbatim>\<open>top_k_by_value\<close> passes, a lambda in the source.\<close>

definition top_k_by_value_cmp :: "'k::linorder \<times> 'v::linorder \<Rightarrow> 'k \<times> 'v \<Rightarrow> bool" where
  "top_k_by_value_cmp a b = (if snd a \<noteq> snd b then snd a > snd b else fst a < fst b)"

definition top_k_by_value :: "('k::linorder \<times> 'v::linorder) list \<Rightarrow> nat \<Rightarrow> ('k \<times> 'v) list" where
  "top_k_by_value m k = top_k m k top_k_by_value_cmp"

definition top_k_by_key :: "('k::linorder \<times> 'v::linorder) list \<Rightarrow> nat \<Rightarrow> ('k \<times> 'v) list" where
  "top_k_by_key m k =
     top_k m k (\<lambda>a b. if fst a \<noteq> fst b then fst a < fst b else snd a > snd b)"

definition bottom_k_by_value :: "('k::linorder \<times> 'v::linorder) list \<Rightarrow> nat \<Rightarrow> ('k \<times> 'v) list" where
  "bottom_k_by_value m k =
     top_k m k (\<lambda>a b. if snd a \<noteq> snd b then snd a < snd b else fst a < fst b)"

subsection \<open>\<^verbatim>\<open>partition_by\<close>\<close>

record 'v partition_result =
  falses :: "'v list"
  trues :: "'v list"

text \<open>
  \<^verbatim>\<open>bool is_true = static_cast<bool>(pred_proj(x)); auto val_value = value_proj(x);\<close>
  and then the \<^verbatim>\<open>push_back\<close> into the branch \<^verbatim>\<open>is_true\<close> names.
\<close>

definition partition_by_body ::
  "('e \<Rightarrow> ('x, 's, bool) eff) \<Rightarrow> ('e \<Rightarrow> ('x, 's, 'v) eff) \<Rightarrow> 'e \<Rightarrow> 'v partition_result \<Rightarrow> ('x, 's, 'v partition_result) eff" where
  "partition_by_body pred val x out =
     and_then (pred x) (\<lambda>is_true.
     and_then (val x) (\<lambda>val_value.
       if is_true then ret (out\<lparr>trues := trues out @ [val_value]\<rparr>)
       else ret (out\<lparr>falses := falses out @ [val_value]\<rparr>)))"

definition partition_by ::
  "'e list \<Rightarrow> ('e \<Rightarrow> ('x, 's, bool) eff) \<Rightarrow> ('e \<Rightarrow> ('x, 's, 'v) eff) \<Rightarrow> ('x, 's, 'v partition_result) eff" where
  "partition_by r pred val = for_each r (partition_by_body pred val) \<lparr>falses = [], trues = []\<rparr>"

text \<open>
  The adaptors of namespace \<^verbatim>\<open>adaptors\<close> store their arguments and, applied to a range,
  call the algorithm of the same name with them; they add nothing to what follows.
\<close>


section \<open>Vocabulary of the specification\<close>

text \<open>
  Putting the two branches of a partition back together by original position: the flags say,
  element by element, from which branch the next value is taken.
\<close>

fun interleave :: "bool list \<Rightarrow> 'v list \<Rightarrow> 'v list \<Rightarrow> 'v list" where
  "interleave [] ts fs = []"
| "interleave (True # bs) (t # ts) fs = t # interleave bs ts fs"
| "interleave (True # bs) [] fs = []"
| "interleave (False # bs) ts (f # fs) = f # interleave bs ts fs"
| "interleave (False # bs) ts [] = []"


text \<open>
  The element of a sequence with the smallest (largest) order key, the earliest one when
  several share it; \<open>None\<close> for the empty sequence.
\<close>

definition first_min :: "('a \<Rightarrow> 'o::linorder) \<Rightarrow> 'a list \<Rightarrow> 'a option" where
  "first_min order ys = find (\<lambda>y. \<forall>z \<in> set ys. order y \<le> order z) ys"

definition first_max :: "('a \<Rightarrow> 'o::linorder) \<Rightarrow> 'a list \<Rightarrow> 'a option" where
  "first_max order ys = find (\<lambda>y. \<forall>z \<in> set ys. order z \<le> order y) ys"


text \<open>
  Running some calls one after the other until the first one throws: the exception and the
  state it leaves, or \<open>None\<close> when every call returns. The calls may return values of
  different types, which \<open>discard\<close> drops.
\<close>

definition discard :: "('x, 's, 'a) eff \<Rightarrow> ('x, 's, unit) eff" where
  "discard m = and_then m (\<lambda>a. ret ())"

fun first_failure :: "('x, 's, unit) eff list \<Rightarrow> 's \<Rightarrow> ('x \<times> 's) option" where
  "first_failure [] s = None"
| "first_failure (c # cs) s =
     (case c s of (Inl e, s1) \<Rightarrow> Some (e, s1) | (Inr u, s1) \<Rightarrow> first_failure cs s1)"

text \<open>
  A range over a container whose elements the projections receive by reference. The state is
  the container's content, an element is referred to by its position (below the container's
  length). One projection reads the element; the other returns a value computed from it and
  leaves the element changed, as \<^verbatim>\<open>[](std::string& s){ return std::move(s); }\<close> does.
\<close>

definition elem_read :: "('a \<Rightarrow> 'r) \<Rightarrow> nat \<Rightarrow> ('x, 'a list, 'r) eff" where
  "elem_read f i = (\<lambda>s. (Inr (f (s ! i)), s))"

definition elem_take :: "('a \<Rightarrow> 'r \<times> 'a) \<Rightarrow> nat \<Rightarrow> ('x, 'a list, 'r) eff" where
  "elem_take f i = (\<lambda>s. (Inr (fst (f (s ! i))), s[i := snd (f (s ! i))]))"



section \<open>Properties of the loop\<close>

lemma for_each_append:
  "for_each (xs @ ys) body acc s =
     (case for_each xs body acc s of
        (Inl e, s1) \<Rightarrow> (Inl e, s1)
      | (Inr acc1, s1) \<Rightarrow> for_each ys body acc1 s1)"
  by (induction xs arbitrary: acc s) (auto split: prod.splits sum.splits)

lemma for_each_pure:
  assumes "\<And>x a s. body x a s = (Inr (g x a), s)"
  shows "for_each xs body acc s = (Inr (fold g xs acc), s)"
  by (induction xs arbitrary: acc s) (simp_all add: assms)

lemma for_each_fails:
  assumes "for_each pre body acc s = (Inr acc1, s1)"
    and "body x acc1 s1 = (Inl e, s2)"
  shows "for_each (pre @ x # post) body acc s = (Inl e, s2)"
  using assms by (simp add: for_each_append)


lemmas eff_defs = and_then_def ret_def pure_proj_def

lemma and_then_ret_right: "and_then m ret = m"
  by (rule ext) (simp add: eff_defs split: prod.splits sum.splits)

lemma find_append_case:
  "find P (xs @ ys) = (case find P xs of None \<Rightarrow> find P ys | Some x \<Rightarrow> Some x)"
  by (induction xs) simp_all


section \<open>Counting\<close>

lemma increment_apply:
  "increment freq k k' =
     (if k' = k then Some ((case freq k of None \<Rightarrow> 0 | Some c \<Rightarrow> c) + 1) else freq k')"
  by (simp add: increment_def try_emplace_def split: option.splits)

lemma count_by_body_pure:
  "count_by_body (pure_proj key) x freq s = (Inr (increment freq (key x)), s)"
  by (simp add: count_by_body_def pure_proj_def and_then_def ret_def)

lemma count_fold_lookup:
  fixes freq :: "'k \<rightharpoonup> 'w::len word"
  shows "fold (\<lambda>x f. increment f (key x)) xs freq k =
     (if k \<in> key ` set xs
      then Some ((case freq k of None \<Rightarrow> 0 | Some c \<Rightarrow> c)
                   + of_nat (length (filter (\<lambda>x. key x = k) xs)))
      else freq k)"
proof (induction xs arbitrary: freq)
  case Nil
  show ?case by simp
next
  case (Cons x xs)
  have none: "filter (\<lambda>y. key y = k) xs = []" if "k \<notin> key ` set xs"
    using that by (auto simp add: filter_empty_conv)
  show ?case
    by (simp add: Cons.IH)
      (auto simp add: increment_apply none algebra_simps split: option.splits)
qed

lemma count_by_pure:
  "count_by xs (pure_proj key) s = (Inr (fold (\<lambda>x f. increment f (key x)) xs Map.empty), s)"
  unfolding count_by_def by (rule for_each_pure) (rule count_by_body_pure)

lemma count_filter_sum:
  "(\<Sum>k\<in>key ` set xs. length (filter (\<lambda>x. key x = k) xs)) = length xs"
proof -
  have "(\<Sum>k\<in>key ` set xs. length (filter (\<lambda>x. key x = k) xs))
      = sum (count_list (map key xs)) (set (map key xs))"
    by (rule sum.cong) (simp_all add: count_list_eq_length_filter filter_map comp_def eq_commute)
  also have "\<dots> = length (map key xs)"
    by (rule sum_count_set) simp_all
  finally show ?thesis by simp
qed

text \<open>
  Claim C1. With a key projection that has no effects, \<^verbatim>\<open>count_by\<close> returns a map
  whose keys are exactly the distinct projected keys of the range (as many entries as there
  are distinct keys), whose entry for a key is the number of elements projecting to it, and
  whose counts add up to the length of the range.
  The counters are machine words of \<open>LENGTH('w)\<close> bits; the length of a range held
  in memory is below \<open>2 ^ LENGTH('w)\<close>, which is the hypothesis.
\<close>

theorem count_by_correct:
  fixes key :: "'e \<Rightarrow> 'k" and xs :: "'e list"
  assumes "length xs < 2 ^ LENGTH('w::len)"
  shows "\<exists>freq :: 'k \<rightharpoonup> 'w word.
      count_by xs (pure_proj key) s = (Inr freq, s)
    \<and> dom freq = key ` set xs
    \<and> card (dom freq) = length (remdups (map key xs))
    \<and> (\<forall>k \<in> key ` set xs. map_option unat (freq k) = Some (length (filter (\<lambda>x. key x = k) xs)))
    \<and> (\<Sum>k \<in> dom freq. case freq k of None \<Rightarrow> 0 | Some c \<Rightarrow> unat c) = length xs"
proof -
  define freq :: "'k \<rightharpoonup> 'w word" where "freq = fold (\<lambda>x f. increment f (key x)) xs Map.empty"
  have look: "freq k = (if k \<in> key ` set xs
      then Some (of_nat (length (filter (\<lambda>x. key x = k) xs))) else None)" for k
    unfolding freq_def by (simp add: count_fold_lookup)
  have small: "unat (of_nat (length (filter (\<lambda>x. key x = k) xs)) :: 'w word)
      = length (filter (\<lambda>x. key x = k) xs)" for k
  proof -
    have "length (filter (\<lambda>x. key x = k) xs) \<le> length xs" by simp
    with assms have "length (filter (\<lambda>x. key x = k) xs) < 2 ^ LENGTH('w)" by linarith
    then show ?thesis by (simp add: unat_of_nat)
  qed
  have d: "dom freq = key ` set xs"
    by (auto simp add: look dom_def)
  have "(\<Sum>k \<in> dom freq. case freq k of None \<Rightarrow> 0 | Some c \<Rightarrow> unat c)
      = (\<Sum>k \<in> key ` set xs. length (filter (\<lambda>x. key x = k) xs))"
    unfolding d by (rule sum.cong) (simp_all add: look small)
  then have total: "(\<Sum>k \<in> dom freq. case freq k of None \<Rightarrow> 0 | Some c \<Rightarrow> unat c) = length xs"
    by (simp add: count_filter_sum)
  have run: "count_by xs (pure_proj key) s = (Inr freq, s)"
    unfolding freq_def by (rule count_by_pure)
  have each: "\<forall>k \<in> key ` set xs. map_option unat (freq k) = Some (length (filter (\<lambda>x. key x = k) xs))"
    by (simp add: look small)
  have entries: "card (dom freq) = length (remdups (map key xs))"
    unfolding d by (simp add: length_remdups_card_conv)
  from run d entries each total show ?thesis by blast
qed

theorem count_by_correct_witness:
  "length [1, 2, 2, 3, 1, 4 :: int] < 2 ^ LENGTH(64) \<and>
   (\<exists>freq :: int \<rightharpoonup> 64 word.
      count_by [1, 2, 2, 3, 1, 4] (pure_proj (\<lambda>x. x)) () = (Inr freq :: unit + _, ())
    \<and> dom freq = {1, 2, 3, 4} \<and> card (dom freq) = 4
    \<and> map_option unat (freq 1) = Some 2 \<and> map_option unat (freq 2) = Some 2
    \<and> map_option unat (freq 3) = Some 1 \<and> map_option unat (freq 4) = Some 1
    \<and> (\<Sum>k \<in> dom freq. case freq k of None \<Rightarrow> 0 | Some c \<Rightarrow> unat c) = 6)"
proof -
  let ?xs = "[1, 2, 2, 3, 1, 4 :: int]"
  have h: "length ?xs < 2 ^ LENGTH(64)" by simp
  from count_by_correct [OF h, of "\<lambda>x. x" "()"]
  obtain freq :: "int \<rightharpoonup> 64 word"
    where run: "count_by ?xs (pure_proj (\<lambda>x. x)) () = (Inr freq :: unit + _, ())"
      and d: "dom freq = (\<lambda>x. x) ` set ?xs"
      and entries: "card (dom freq) = length (remdups (map (\<lambda>x. x) ?xs))"
      and each: "\<forall>k \<in> (\<lambda>x. x) ` set ?xs.
          map_option unat (freq k) = Some (length (filter (\<lambda>x. x = k) ?xs))"
      and total: "(\<Sum>k \<in> dom freq. case freq k of None \<Rightarrow> 0 | Some c \<Rightarrow> unat c) = length ?xs"
    by (elim exE conjE)
  have d': "dom freq = {1, 2, 3, 4}"
    unfolding d by auto
  have c1: "map_option unat (freq 1) = Some 2"
  proof -
    have "length (filter (\<lambda>x. x = 1) ?xs) = 2" by simp
    moreover have "1 \<in> (\<lambda>x. x) ` set ?xs" by simp
    ultimately show ?thesis using each by metis
  qed
  have c2: "map_option unat (freq 2) = Some 2"
  proof -
    have "length (filter (\<lambda>x. x = 2) ?xs) = 2" by simp
    moreover have "2 \<in> (\<lambda>x. x) ` set ?xs" by simp
    ultimately show ?thesis using each by metis
  qed
  have c3: "map_option unat (freq 3) = Some 1"
  proof -
    have "length (filter (\<lambda>x. x = 3) ?xs) = 1" by simp
    moreover have "3 \<in> (\<lambda>x. x) ` set ?xs" by simp
    ultimately show ?thesis using each by metis
  qed
  have c4: "map_option unat (freq 4) = Some 1"
  proof -
    have "length (filter (\<lambda>x. x = 4) ?xs) = 1" by simp
    moreover have "4 \<in> (\<lambda>x. x) ` set ?xs" by simp
    ultimately show ?thesis using each by metis
  qed
  have total': "(\<Sum>k \<in> dom freq. case freq k of None \<Rightarrow> 0 | Some c \<Rightarrow> unat c) = 6"
    using total by simp
  have entries': "card (dom freq) = 4"
    using entries by simp
  show ?thesis
    by (intro conjI h exI [of _ freq] run d' entries' c1 c2 c3 c4 total')
qed


section \<open>Partitioning\<close>

lemma partition_by_body_pure:
  "partition_by_body (pure_proj pred) (pure_proj val) x out s =
     (Inr (if pred x then out\<lparr>trues := trues out @ [val x]\<rparr>
           else out\<lparr>falses := falses out @ [val x]\<rparr>), s)"
  by (simp add: partition_by_body_def eff_defs)

lemma partition_loop_pure:
  "for_each xs (partition_by_body (pure_proj pred) (pure_proj val)) out s =
     (Inr \<lparr>falses = falses out @ map val (filter (\<lambda>x. \<not> pred x) xs),
           trues = trues out @ map val (filter pred xs)\<rparr>, s)"
  by (induction xs arbitrary: out) (simp_all add: partition_by_body_pure)

lemma interleave_filter:
  "interleave (map pred xs) (map val (filter pred xs)) (map val (filter (\<lambda>x. \<not> pred x) xs)) = map val xs"
  by (induction xs) simp_all

text \<open>
  Claim C2. With a predicate and a value projection that have no effects, \<^verbatim>\<open>partition_by\<close>
  puts the projected value of every element into exactly one branch: the true branch holds the
  values of the elements satisfying the predicate, the false branch those of the others, each
  in input order; nothing is lost or duplicated, and interleaving the branches by original
  position gives back the projected input.
\<close>

theorem partition_by_splits:
  "\<exists>out. partition_by xs (pure_proj pred) (pure_proj val) s = (Inr out, s)
     \<and> trues out = map val (filter pred xs)
     \<and> falses out = map val (filter (\<lambda>x. \<not> pred x) xs)
     \<and> mset (trues out) + mset (falses out) = mset (map val xs)
     \<and> length (trues out) + length (falses out) = length xs
     \<and> interleave (map pred xs) (trues out) (falses out) = map val xs"
proof -
  let ?out = "\<lparr>falses = map val (filter (\<lambda>x. \<not> pred x) xs), trues = map val (filter pred xs)\<rparr>"
  have "partition_by xs (pure_proj pred) (pure_proj val) s = (Inr ?out, s)"
    by (simp add: partition_by_def partition_loop_pure)
  moreover have "mset (trues ?out) + mset (falses ?out) = mset (map val xs)"
    by (induction xs) simp_all
  moreover have "length (trues ?out) + length (falses ?out) = length xs"
    by (simp add: sum_length_filter_compl)
  moreover have "interleave (map pred xs) (trues ?out) (falses ?out) = map val xs"
    by (simp add: interleave_filter)
  ultimately show ?thesis by (intro exI [of _ ?out]) simp
qed

lemma partition_by_example:
  "partition_by [1, 2, 3, 4, 5, 6 :: int] (pure_proj (\<lambda>v. v mod 2 = 0)) (pure_proj (\<lambda>v. v)) ()
     = (Inr \<lparr>falses = [1, 3, 5], trues = [2, 4, 6]\<rparr> :: unit + _, ())"
  by (simp add: partition_by_def partition_by_body_def eff_defs)


section \<open>Indexing\<close>

lemma index_by_into_body_pure:
  "index_by_into_body (pure_proj key) (pure_proj val) overwrite x m s =
     (Inr (if overwrite then m(key x \<mapsto> val x) else emplace m (key x) (val x)), s)"
  by (simp add: index_by_into_body_def eff_defs)

lemma emplace_apply:
  "emplace m k v k' = (if k' = k \<and> m k = None then Some v else m k')"
  by (simp add: emplace_def try_emplace_def split: option.splits)


lemma index_loop_overwrite:
  "for_each xs (index_by_into_body (pure_proj key) (pure_proj val) True) m s =
     (Inr (\<lambda>k. case find (\<lambda>x. key x = k) (rev xs) of None \<Rightarrow> m k | Some x \<Rightarrow> Some (val x)), s)"
proof (induction xs arbitrary: m)
  case Nil
  show ?case by simp
next
  case (Cons x xs)
  have step: "for_each (x # xs) (index_by_into_body (pure_proj key) (pure_proj val) True) m s
      = for_each xs (index_by_into_body (pure_proj key) (pure_proj val) True) (m(key x \<mapsto> val x)) s"
    by (simp add: index_by_into_body_pure)
  have "(\<lambda>k. case find (\<lambda>x. key x = k) (rev xs) of
               None \<Rightarrow> (m(key x \<mapsto> val x)) k | Some y \<Rightarrow> Some (val y))
      = (\<lambda>k. case find (\<lambda>x. key x = k) (rev (x # xs)) of
               None \<Rightarrow> m k | Some y \<Rightarrow> Some (val y))"
    by (rule ext) (simp add: find_append_case split: option.splits)
  then show ?case
    unfolding step Cons.IH by (rule arg_cong [where f = "\<lambda>f. (Inr f, s)"])
qed

lemma index_loop_keep_first:
  "for_each xs (index_by_into_body (pure_proj key) (pure_proj val) False) m s =
     (Inr (\<lambda>k. case m k of Some v \<Rightarrow> Some v
                | None \<Rightarrow> map_option val (find (\<lambda>x. key x = k) xs)), s)"
proof (induction xs arbitrary: m)
  case Nil
  have "m = (\<lambda>k. case m k of Some v \<Rightarrow> Some v | None \<Rightarrow> map_option val (find (\<lambda>x. key x = k) []))"
    by (rule ext) (simp split: option.splits)
  then show ?case
    unfolding for_each.simps by (rule arg_cong [where f = "\<lambda>f. (Inr f, s)"])
next
  case (Cons x xs)
  have step: "for_each (x # xs) (index_by_into_body (pure_proj key) (pure_proj val) False) m s
      = for_each xs (index_by_into_body (pure_proj key) (pure_proj val) False)
          (emplace m (key x) (val x)) s"
    by (simp add: index_by_into_body_pure)
  have "(\<lambda>k. case emplace m (key x) (val x) k of Some v \<Rightarrow> Some v
                | None \<Rightarrow> map_option val (find (\<lambda>x. key x = k) xs))
      = (\<lambda>k. case m k of Some v \<Rightarrow> Some v
                | None \<Rightarrow> map_option val (find (\<lambda>y. key y = k) (x # xs)))"
    by (rule ext) (simp add: emplace_apply split: option.splits)
  then show ?case
    unfolding step Cons.IH by (rule arg_cong [where f = "\<lambda>f. (Inr f, s)"])
qed

lemma index_by_last:
  "index_by xs (pure_proj key) (pure_proj val) (Some True) s
      = (Inr (\<lambda>k. map_option val (find (\<lambda>x. key x = k) (rev xs))), s)"
  unfolding index_by_def index_by_into_def defaulted_def option.case index_loop_overwrite
  by (simp add: map_option_case)

lemma index_by_first:
  "index_by xs (pure_proj key) (pure_proj val) (Some False) s
      = (Inr (\<lambda>k. map_option val (find (\<lambda>x. key x = k) xs)), s)"
  unfolding index_by_def index_by_into_def defaulted_def option.case index_loop_keep_first
  by simp

text \<open>
  Claim C4. With projections that have no effects, \<^verbatim>\<open>index_by\<close> with
  \<^verbatim>\<open>overwrite = true\<close> maps every key to the value of the last element with that key,
  with \<^verbatim>\<open>overwrite = false\<close> to the value of the first; leaving the flag out is
  \<^verbatim>\<open>overwrite = true\<close>. On \<open>[(a, 1), (a, 2)]\<close> keyed by the first component the
  results are \<open>a \<mapsto> 2\<close> and \<open>a \<mapsto> 1\<close>.
\<close>

theorem index_by_conflict_resolution:
  "(\<exists>m. index_by xs (pure_proj key) (pure_proj val) (Some True) s = (Inr m, s)
       \<and> (\<forall>k. m k = map_option val (find (\<lambda>x. key x = k) (rev xs))))
 \<and> (\<exists>m. index_by xs (pure_proj key) (pure_proj val) (Some False) s = (Inr m, s)
       \<and> (\<forall>k. m k = map_option val (find (\<lambda>x. key x = k) xs)))
 \<and> index_by xs (pure_proj key) (pure_proj val) None s
      = index_by xs (pure_proj key) (pure_proj val) (Some True) s
 \<and> (\<exists>m. index_by [(CHR ''a'', 1 :: int), (CHR ''a'', 2)] (pure_proj fst) (pure_proj snd) (Some True) s
          = (Inr m, s) \<and> m (CHR ''a'') = Some 2 \<and> dom m = {CHR ''a''})
 \<and> (\<exists>m. index_by [(CHR ''a'', 1 :: int), (CHR ''a'', 2)] (pure_proj fst) (pure_proj snd) (Some False) s
          = (Inr m, s) \<and> m (CHR ''a'') = Some 1 \<and> dom m = {CHR ''a''})"
proof -
  have dflt: "index_by xs (pure_proj key) (pure_proj val) None s
      = index_by xs (pure_proj key) (pure_proj val) (Some True) s"
    by (simp add: index_by_def defaulted_def)
  show ?thesis
    apply (intro conjI)
    subgoal by (simp add: index_by_last)
    subgoal by (simp add: index_by_first)
    subgoal by (rule dflt)
    subgoal by (auto simp add: index_by_last dom_def split: if_splits)
    subgoal by (auto simp add: index_by_first dom_def split: if_splits)
    done
qed


section \<open>Reductions\<close>

lemma transform_reduce_by_body_pure:
  "transform_reduce_by_body (pure_proj key) (pure_proj val) \<lparr>identity = ret i, combine = (\<lambda>a v. ret (c a v))\<rparr> x accs s =
     (Inr (accs(key x \<mapsto> c (case accs (key x) of None \<Rightarrow> i | Some a \<Rightarrow> a) (val x))), s)"
  by (simp add: transform_reduce_by_body_def eff_defs try_emplace_def split: option.splits)

lemma reduce_loop_pure:
  "for_each xs (transform_reduce_by_body (pure_proj key) (pure_proj val)
       \<lparr>identity = ret i, combine = (\<lambda>a v. ret (c a v))\<rparr>) accs s =
     (Inr (\<lambda>k. if k \<in> key ` set xs
                then Some (foldl c (case accs k of None \<Rightarrow> i | Some a \<Rightarrow> a)
                             (map val (filter (\<lambda>x. key x = k) xs)))
                else accs k), s)"
    (is "for_each xs ?body accs s = (Inr (?res xs accs), s)")
proof (induction xs arbitrary: accs)
  case Nil
  show ?case by simp
next
  case (Cons x xs)
  let ?accs1 = "accs(key x \<mapsto> c (case accs (key x) of None \<Rightarrow> i | Some a \<Rightarrow> a) (val x))"
  have step: "for_each (x # xs) ?body accs s = for_each xs ?body ?accs1 s"
    by (simp add: transform_reduce_by_body_pure)
  have none: "filter (\<lambda>y. key y = k) xs = []" if "k \<notin> key ` set xs" for k
    using that by (auto simp add: filter_empty_conv)
  have "?res xs ?accs1 = ?res (x # xs) accs"
    by (rule ext) (auto simp add: none split: option.splits)
  then show ?case
    unfolding step Cons.IH by (rule arg_cong [where f = "\<lambda>f. (Inr f, s)"])
qed

lemma foldl_plus_sum_list:
  fixes a :: "'a::monoid_add"
  shows "foldl (+) a vs = a + sum_list vs"
  by (induction vs arbitrary: a) (simp_all add: add.assoc)

text \<open>
  Claim C5. With projections that have no effects, \<^verbatim>\<open>accumulate_by\<close> without an
  initial value maps every key of the range to the sum of the projected values of the elements
  with that key, starting from zero. The value type is any type with \<^verbatim>\<open>T{}\<close> and
  \<^verbatim>\<open>+=\<close> forming a monoid: unbounded integers, or machine words with their wrap-around.
\<close>

theorem accumulate_by_sums:
  fixes val :: "'e \<Rightarrow> 'v::monoid_add"
  shows "(\<exists>totals. accumulate_by xs (pure_proj key) (pure_proj val) s = (Inr totals, s)
      \<and> dom totals = key ` set xs
      \<and> (\<forall>k. totals k = (if k \<in> key ` set xs
                           then Some (sum_list (map val (filter (\<lambda>x. key x = k) xs)))
                           else None)))
    \<and> (\<exists>totals. accumulate_by
           [(''red'', 3 :: int), (''blue'', 2), (''red'', 5), (''blue'', 4), (''red'', - 1)]
           (pure_proj fst) (pure_proj snd) s = (Inr totals, s)
         \<and> totals ''red'' = Some 7 \<and> totals ''blue'' = Some 6 \<and> dom totals = {''red'', ''blue''})"
proof -
  have run: "accumulate_by xs (pure_proj key) (pure_proj val) s
      = (Inr (\<lambda>k. if k \<in> key ` set xs
                   then Some (sum_list (map val (filter (\<lambda>x. key x = k) xs))) else None), s)"
    for xs :: "'p list" and key :: "'p \<Rightarrow> 'q" and val :: "'p \<Rightarrow> 'r::monoid_add"
    unfolding accumulate_by_def transform_reduce_by_def transform_reduce_by_impl_def sum_traits_def
      reduce_loop_pure
    by (simp add: foldl_plus_sum_list cong: if_cong)
  show ?thesis
    apply (intro conjI)
    subgoal by (auto simp add: run dom_def)
    subgoal by (auto simp add: run dom_def split: if_splits)
    done
qed

text \<open>
  Claim C6. A traits object without \<^verbatim>\<open>finalize\<close> whose \<^verbatim>\<open>identity()\<close> returns
  \<open>init\<close> and whose \<^verbatim>\<open>combine\<close> acts as \<open>combine_op\<close> gives, through the traits
  overload of \<^verbatim>\<open>transform_reduce_by\<close>, the outcome the overload taking \<open>init\<close> and
  \<open>combine_op\<close> gives: the same map (or the same exception) and the same final state, for
  any projections.
\<close>

theorem transform_reduce_by_forms_agree:
  assumes "identity traits = ret init"
    and "\<And>acc v. combine traits acc v = combine_op acc v"
  shows "transform_reduce_by r key val traits s = transform_reduce_by_init r key val init combine_op s"
proof -
  have "transform_reduce_by_body key val traits
      = transform_reduce_by_body key val (basic_transform_traits init combine_op)"
    by (intro ext) (simp add: transform_reduce_by_body_def basic_transform_traits_def assms and_then_ret_right)
  then show ?thesis
    by (simp add: transform_reduce_by_def transform_reduce_by_init_def transform_reduce_by_impl_def)
qed

theorem transform_reduce_by_forms_agree_witness:
  "identity \<lparr>identity = ret (10 :: int), combine = (\<lambda>a v. ret (a + v))\<rparr> = (ret 10 :: (unit, unit, int) eff)
   \<and> (\<forall>acc v. combine \<lparr>identity = (ret 10 :: (unit, unit, int) eff), combine = (\<lambda>a v. ret (a + v))\<rparr> acc v
                  = ret (acc + v))
   \<and> transform_reduce_by [(''red'', 3), (''blue'', 2), (''red'', 5)] (pure_proj fst) (pure_proj snd)
         \<lparr>identity = (ret 10 :: (unit, unit, int) eff), combine = (\<lambda>a v. ret (a + v))\<rparr> ()
     = transform_reduce_by_init [(''red'', 3), (''blue'', 2), (''red'', 5)] (pure_proj fst) (pure_proj snd)
         10 (\<lambda>a v. ret (a + v)) ()"
proof -
  let ?t = "\<lparr>identity = (ret 10 :: (unit, unit, int) eff), combine = (\<lambda>a v. ret (a + v))\<rparr>"
  have h1: "identity ?t = ret 10" by simp
  have h2: "\<And>acc v. combine ?t acc v = ret (acc + v)" by simp
  from transform_reduce_by_forms_agree [of ?t 10 "\<lambda>a v. ret (a + v)", OF h1 h2] h1 h2
  show ?thesis by simp
qed


section \<open>Extrema\<close>

lemma first_min_Nil: "first_min order [] = None"
  by (simp add: first_min_def)

lemma first_min_exists:
  assumes "ys \<noteq> []"
  shows "\<exists>m. first_min order ys = Some m"
proof -
  have "order ` set ys \<noteq> {}" and fin: "finite (order ` set ys)" using assms by simp_all
  then have "Min (order ` set ys) \<in> order ` set ys" by (rule_tac Min_in)
  then obtain y where y: "y \<in> set ys" "order y = Min (order ` set ys)" by auto
  have "\<forall>z \<in> set ys. order y \<le> order z"
    using y fin by simp
  with y have "\<exists>y. y \<in> set ys \<and> (\<forall>z \<in> set ys. order y \<le> order z)" by blast
  then have "first_min order ys \<noteq> None"
    unfolding first_min_def find_None_iff by blast
  then show ?thesis by auto
qed

lemma first_min_props:
  assumes "first_min order ys = Some m"
  shows "m \<in> set ys" and "\<And>z. z \<in> set ys \<Longrightarrow> order m \<le> order z"
proof -
  from assms obtain i where i: "i < length ys" "\<forall>z \<in> set ys. order (ys ! i) \<le> order z" "m = ys ! i"
    unfolding first_min_def find_Some_iff by blast
  show "m \<in> set ys" using i by simp
  show "\<And>z. z \<in> set ys \<Longrightarrow> order m \<le> order z" using i by simp
qed

lemma first_min_snoc:
  "first_min order (ys @ [x]) =
     (case first_min order ys of
        None \<Rightarrow> Some x
      | Some m \<Rightarrow> if order x < order m then Some x else Some m)"
proof (cases "ys = []")
  case True
  then show ?thesis by (simp add: first_min_def)
next
  case False
  then obtain m where m: "first_min order ys = Some m" using first_min_exists by blast
  note mp = first_min_props [OF m]
  show ?thesis
  proof (cases "order x < order m")
    case True
    have "find (\<lambda>y. \<forall>z \<in> set (ys @ [x]). order y \<le> order z) ys = None"
    proof -
      have "\<not> order y \<le> order x" if "y \<in> set ys" for y
        using mp(2) [OF that] True by simp
      then show ?thesis unfolding find_None_iff by auto
    qed
    moreover have "\<forall>z \<in> set (ys @ [x]). order x \<le> order z"
      using True mp(2) by (auto intro: less_imp_le less_le_trans)
    ultimately show ?thesis
      using True m by (simp add: first_min_def find_append_case)
  next
    case False
    have "find (\<lambda>y. \<forall>z \<in> set (ys @ [x]). order y \<le> order z) ys
        = find (\<lambda>y. \<forall>z \<in> set ys. order y \<le> order z) ys"
    proof (rule find_cong [OF refl])
      fix y assume "y \<in> set ys"
      show "(\<forall>z \<in> set (ys @ [x]). order y \<le> order z) = (\<forall>z \<in> set ys. order y \<le> order z)"
        using False mp by (auto simp: not_less intro: order_trans)
    qed
    then show ?thesis
      using False m by (simp add: first_min_def find_append_case)
  qed
qed


lemma first_max_exists:
  assumes "ys \<noteq> []"
  shows "\<exists>m. first_max order ys = Some m"
proof -
  have "order ` set ys \<noteq> {}" and fin: "finite (order ` set ys)" using assms by simp_all
  then have "Max (order ` set ys) \<in> order ` set ys" by (rule_tac Max_in)
  then obtain y where y: "y \<in> set ys" "order y = Max (order ` set ys)" by auto
  have "\<forall>z \<in> set ys. order z \<le> order y"
    using y fin by simp
  with y have "\<exists>y. y \<in> set ys \<and> (\<forall>z \<in> set ys. order z \<le> order y)" by blast
  then have "first_max order ys \<noteq> None"
    unfolding first_max_def find_None_iff by blast
  then show ?thesis by auto
qed

lemma first_max_props:
  assumes "first_max order ys = Some m"
  shows "m \<in> set ys" and "\<And>z. z \<in> set ys \<Longrightarrow> order z \<le> order m"
proof -
  from assms obtain i where i: "i < length ys" "\<forall>z \<in> set ys. order z \<le> order (ys ! i)" "m = ys ! i"
    unfolding first_max_def find_Some_iff by blast
  show "m \<in> set ys" using i by simp
  show "\<And>z. z \<in> set ys \<Longrightarrow> order z \<le> order m" using i by simp
qed

lemma first_max_snoc:
  "first_max order (ys @ [x]) =
     (case first_max order ys of
        None \<Rightarrow> Some x
      | Some m \<Rightarrow> if order m < order x then Some x else Some m)"
proof (cases "ys = []")
  case True
  then show ?thesis by (simp add: first_max_def)
next
  case False
  then obtain m where m: "first_max order ys = Some m" using first_max_exists by blast
  note mp = first_max_props [OF m]
  show ?thesis
  proof (cases "order m < order x")
    case True
    have "find (\<lambda>y. \<forall>z \<in> set (ys @ [x]). order z \<le> order y) ys = None"
    proof -
      have "\<not> order x \<le> order y" if "y \<in> set ys" for y
        using mp(2) [OF that] True by simp
      then show ?thesis unfolding find_None_iff by auto
    qed
    moreover have "\<forall>z \<in> set (ys @ [x]). order z \<le> order x"
      using True mp(2) by (auto intro: less_imp_le le_less_trans)
    ultimately show ?thesis
      using True m by (simp add: first_max_def find_append_case)
  next
    case False
    have "find (\<lambda>y. \<forall>z \<in> set (ys @ [x]). order z \<le> order y) ys
        = find (\<lambda>y. \<forall>z \<in> set ys. order z \<le> order y) ys"
    proof (rule find_cong [OF refl])
      fix y assume "y \<in> set ys"
      show "(\<forall>z \<in> set (ys @ [x]). order z \<le> order y) = (\<forall>z \<in> set ys. order z \<le> order y)"
        using False mp by (auto simp: not_less intro: order_trans)
    qed
    then show ?thesis
      using False m by (simp add: first_max_def find_append_case)
  qed
qed

lemma first_max_Nil: "first_max order [] = None"
  by (simp add: first_max_def)

lemma first_min_None_iff: "first_min order ys = None \<longleftrightarrow> ys = []"
  using first_min_exists [of ys order] by (cases "ys = []") (auto simp add: first_min_Nil)

lemma first_max_None_iff: "first_max order ys = None \<longleftrightarrow> ys = []"
  using first_max_exists [of ys order] by (cases "ys = []") (auto simp add: first_max_Nil)

lemma extrema_by_body_pure:
  "extrema_by_body (pure_proj key) (pure_proj val) (pure_proj order) compare x states s =
     (Inr (extrema_update compare states (key x) (order x) (val x)), s)"
  by (simp add: extrema_by_body_def eff_defs)

lemma extrema_update_apply:
  "extrema_update ranges_less states k ov vv k' =
     (if k' = k then
        (case states k of
           None \<Rightarrow> Some \<lparr>min_value = vv, min_order = ov, max_value = vv, max_order = ov\<rparr>
         | Some st \<Rightarrow>
             Some \<lparr>min_value = (if ov < min_order st then vv else min_value st),
                   min_order = (if ov < min_order st then ov else min_order st),
                   max_value = (if max_order st < ov then vv else max_value st),
                   max_order = (if max_order st < ov then ov else max_order st)\<rparr>)
      else states k')"
  by (simp add: extrema_update_def try_emplace_def ranges_less_def Let_def split: option.splits)

lemma extrema_loop_pure:
  fixes order :: "'e \<Rightarrow> 'o::linorder"
  shows "for_each xs (extrema_by_body (pure_proj key) (pure_proj val) (pure_proj order) ranges_less) Map.empty s =
     (Inr (\<lambda>k. case first_min order (filter (\<lambda>x. key x = k) xs) of
                  None \<Rightarrow> None
                | Some a \<Rightarrow>
                   (case first_max order (filter (\<lambda>x. key x = k) xs) of
                      None \<Rightarrow> None
                    | Some b \<Rightarrow> Some \<lparr>min_value = val a, min_order = order a,
                                       max_value = val b, max_order = order b\<rparr>)), s)"
    (is "for_each xs ?body Map.empty s = (Inr (?inv xs), s)")
proof (induction xs rule: rev_induct)
  case Nil
  have "Map.empty = ?inv []" by (rule ext) (simp add: first_min_Nil)
  then show ?case
    unfolding for_each.simps by (rule arg_cong [where f = "\<lambda>f. (Inr f, s)"])
next
  case (snoc x xs)
  have step: "for_each (xs @ [x]) ?body Map.empty s
      = (Inr (extrema_update ranges_less (?inv xs) (key x) (order x) (val x)), s)"
    unfolding for_each_append snoc.IH by (simp add: extrema_by_body_pure)
  have "extrema_update ranges_less (?inv xs) (key x) (order x) (val x) k = ?inv (xs @ [x]) k" for k
  proof (cases "k = key x")
    case False
    then have "filter (\<lambda>y. key y = k) (xs @ [x]) = filter (\<lambda>y. key y = k) xs" by auto
    with False show ?thesis unfolding extrema_update_apply by (simp cong: option.case_cong)
  next
    case True
    have f: "filter (\<lambda>y. key y = k) (xs @ [x]) = filter (\<lambda>y. key y = k) xs @ [x]"
      using True by simp
    show ?thesis
    proof (cases "filter (\<lambda>y. key y = k) xs = []")
      case e: True
      show ?thesis
        unfolding extrema_update_apply f first_min_snoc first_max_snoc
        using True e by (simp add: first_min_Nil first_max_Nil)
    next
      case ne: False
      obtain a where a: "first_min order (filter (\<lambda>y. key y = k) xs) = Some a"
        using first_min_exists [OF ne] by blast
      obtain b where b: "first_max order (filter (\<lambda>y. key y = k) xs) = Some b"
        using first_max_exists [OF ne] by blast
      show ?thesis
        unfolding extrema_update_apply f first_min_snoc first_max_snoc
        using True a b by simp
    qed
  qed
  then have "extrema_update ranges_less (?inv xs) (key x) (order x) (val x) = ?inv (xs @ [x])"
    by (rule ext)
  then show ?case
    unfolding step by (rule arg_cong [where f = "\<lambda>f. (Inr f, s)"])
qed


lemma extrema_result_lookup:
  fixes order :: "'e \<Rightarrow> 'o::linorder" and val :: "'e \<Rightarrow> 'v"
  defines "out ys \<equiv> map_option (\<lambda>st. \<lparr>min_r = min_value st, max_r = max_value st\<rparr>)
       (case first_min order ys of
                  None \<Rightarrow> None
                | Some a \<Rightarrow>
                   (case first_max order ys of
                      None \<Rightarrow> None
                    | Some b \<Rightarrow> Some \<lparr>min_value = val a, min_order = order a,
                                       max_value = val b, max_order = order b\<rparr>))"
  shows "map_option min_r (out ys) = map_option val (first_min order ys)
    \<and> map_option max_r (out ys) = map_option val (first_max order ys)
    \<and> (out ys = None) = (ys = [])"
proof (cases "ys = []")
  case True
  then show ?thesis by (simp add: out_def first_min_Nil first_max_Nil)
next
  case False
  obtain a where a: "first_min order ys = Some a" using first_min_exists [OF False] by blast
  obtain b where b: "first_max order ys = Some b" using first_max_exists [OF False] by blast
  from False show ?thesis by (simp add: out_def a b)
qed

text \<open>
  Claim C3. With projections that have no effects and the default comparator,
  \<^verbatim>\<open>extrema_by\<close> has an entry for exactly the keys of the range; its \<^verbatim>\<open>min\<close> is the
  value of the element with the smallest order key among the elements of that key, its
  \<^verbatim>\<open>max\<close> the value of the one with the largest, and where several elements share the
  extreme order key it is the earliest of them: the stored value changes only when the new
  order key is strictly smaller (larger).
\<close>

theorem extrema_by_first_extremes:
  fixes order :: "'e \<Rightarrow> 'o::linorder"
  shows "\<exists>out. extrema_by xs (pure_proj key) (pure_proj val) (pure_proj order) ranges_less s = (Inr out, s)
    \<and> dom out = key ` set xs
    \<and> (\<forall>k. map_option min_r (out k) = map_option val (first_min order (filter (\<lambda>x. key x = k) xs))
          \<and> map_option max_r (out k) = map_option val (first_max order (filter (\<lambda>x. key x = k) xs)))"
proof -
  define out where "out = (\<lambda>k. map_option (\<lambda>st. \<lparr>min_r = min_value st, max_r = max_value st\<rparr>)
       (case first_min order (filter (\<lambda>x. key x = k) xs) of
                  None \<Rightarrow> None
                | Some a \<Rightarrow>
                   (case first_max order (filter (\<lambda>x. key x = k) xs) of
                      None \<Rightarrow> None
                    | Some b \<Rightarrow> Some \<lparr>min_value = val a, min_order = order a,
                                       max_value = val b, max_order = order b\<rparr>)))"
  have run: "extrema_by xs (pure_proj key) (pure_proj val) (pure_proj order) ranges_less s = (Inr out, s)"
    unfolding extrema_by_def and_then_def extrema_loop_pure out_def by (simp add: ret_def)
  have facts: "map_option min_r (out k) = map_option val (first_min order (filter (\<lambda>x. key x = k) xs))
    \<and> map_option max_r (out k) = map_option val (first_max order (filter (\<lambda>x. key x = k) xs))
    \<and> (out k = None) = (filter (\<lambda>x. key x = k) xs = [])" for k
    unfolding out_def by (rule extrema_result_lookup)
  have "(out k = None) = (k \<notin> key ` set xs)" for k
    using facts [of k] by (auto simp add: filter_empty_conv)
  then have d: "dom out = key ` set xs"
    by (auto simp add: dom_def)
  have every: "\<forall>k. map_option min_r (out k) = map_option val (first_min order (filter (\<lambda>x. key x = k) xs))
    \<and> map_option max_r (out k) = map_option val (first_max order (filter (\<lambda>x. key x = k) xs))"
    using facts by simp
  show ?thesis
    by (rule exI [of _ out]) (rule conjI [OF run conjI [OF d every]])
qed

theorem extrema_by_first_extremes_witness:
  "\<exists>out. extrema_by
       [(''alpha'', 10, 100), (''beta'', 5, 80), (''alpha'', 4, 90), (''beta'', 12, 200),
        (''alpha'', 15, 300), (''alpha'', 7, 90 :: int), (''alpha'', 8 :: int, 300)]
       (pure_proj fst) (pure_proj (\<lambda>r. r)) (pure_proj (\<lambda>r. snd (snd r))) ranges_less ()
     = (Inr out :: unit + _, ())
   \<and> map_option min_r (out ''alpha'') = Some (''alpha'', 4, 90)
   \<and> map_option max_r (out ''alpha'') = Some (''alpha'', 15, 300)
   \<and> map_option min_r (out ''beta'') = Some (''beta'', 5, 80)
   \<and> map_option max_r (out ''beta'') = Some (''beta'', 12, 200)
   \<and> out ''gamma'' = None"
proof -
  let ?xs = "[(''alpha'', 10, 100), (''beta'', 5, 80), (''alpha'', 4, 90), (''beta'', 12, 200),
        (''alpha'', 15, 300), (''alpha'', 7, 90 :: int), (''alpha'', 8 :: int, 300)]"
  from extrema_by_first_extremes [of ?xs fst "\<lambda>r. r" "\<lambda>r. snd (snd r)" "()"]
  obtain out where run: "extrema_by ?xs (pure_proj fst) (pure_proj (\<lambda>r. r)) (pure_proj (\<lambda>r. snd (snd r))) ranges_less ()
       = (Inr out :: unit + _, ())"
    and d: "dom out = fst ` set ?xs"
    and ex: "\<forall>k. map_option min_r (out k) = map_option (\<lambda>r. r) (first_min (\<lambda>r. snd (snd r)) (filter (\<lambda>x. fst x = k) ?xs))
          \<and> map_option max_r (out k) = map_option (\<lambda>r. r) (first_max (\<lambda>r. snd (snd r)) (filter (\<lambda>x. fst x = k) ?xs))"
    by (elim exE conjE)
  have "''gamma'' \<notin> dom out"
    unfolding d by simp
  then have g: "out ''gamma'' = None"
    by (simp add: domIff)
  have a1: "map_option min_r (out ''alpha'') = Some (''alpha'', 4, 90)"
    using ex [rule_format, of "''alpha''"] by (simp add: first_min_def)
  have a2: "map_option max_r (out ''alpha'') = Some (''alpha'', 15, 300)"
    using ex [rule_format, of "''alpha''"] by (simp add: first_max_def)
  have b1: "map_option min_r (out ''beta'') = Some (''beta'', 5, 80)"
    using ex [rule_format, of "''beta''"] by (simp add: first_min_def)
  have b2: "map_option max_r (out ''beta'') = Some (''beta'', 12, 200)"
    using ex [rule_format, of "''beta''"] by (simp add: first_max_def)
  show ?thesis
    by (rule exI [of _ out]) (intro conjI run a1 a2 b1 b2 g)
qed


section \<open>Sorted reports\<close>

lemma mset_insert_sorted: "mset (insert_sorted cmp a xs) = add_mset a (mset xs)"
  by (induction xs) simp_all

lemma mset_ranges_sort: "mset (ranges_sort xs cmp) = mset xs"
  by (induction xs) (simp_all add: mset_insert_sorted)

lemma set_insert_sorted: "set (insert_sorted cmp a xs) = insert a (set xs)"
  by (induction xs) auto

lemma sorted_insert_sorted:
  assumes asym: "\<And>x y. cmp x y \<Longrightarrow> \<not> cmp y x"
    and trans: "\<And>x y z. \<not> cmp y x \<Longrightarrow> \<not> cmp z y \<Longrightarrow> \<not> cmp z x"
    and "sorted_wrt (\<lambda>x y. \<not> cmp y x) xs"
  shows "sorted_wrt (\<lambda>x y. \<not> cmp y x) (insert_sorted cmp a xs)"
  using assms(3)
proof (induction xs)
  case Nil
  show ?case by simp
next
  case (Cons b bs)
  show ?case
  proof (cases "cmp a b")
    case True
    have "\<not> cmp b a" using True asym by blast
    moreover have "\<not> cmp y a" if "y \<in> set bs" for y
    proof -
      have "\<not> cmp y b" using Cons.prems that by simp
      with \<open>\<not> cmp b a\<close> show ?thesis using trans by blast
    qed
    ultimately show ?thesis using True Cons.prems by simp
  next
    case False
    have "sorted_wrt (\<lambda>x y. \<not> cmp y x) (insert_sorted cmp a bs)"
      using Cons.IH Cons.prems by simp
    then show ?thesis using False Cons.prems by (auto simp add: set_insert_sorted)
  qed
qed

lemma sorted_ranges_sort:
  assumes asym: "\<And>x y. cmp x y \<Longrightarrow> \<not> cmp y x"
    and trans: "\<And>x y z. \<not> cmp y x \<Longrightarrow> \<not> cmp z y \<Longrightarrow> \<not> cmp z x"
  shows "sorted_wrt (\<lambda>x y. \<not> cmp y x) (ranges_sort xs cmp)"
  by (induction xs) (simp_all add: sorted_insert_sorted [OF asym trans])

lemma sorted_rearrangement_unique:
  assumes irrefl: "\<And>x. \<not> cmp x x"
    and total: "\<And>x y. \<not> cmp x y \<Longrightarrow> \<not> cmp y x \<Longrightarrow> x = y"
    and "sorted_wrt (\<lambda>x y. \<not> cmp y x) xs"
    and "sorted_wrt (\<lambda>x y. \<not> cmp y x) ys"
    and "mset xs = mset ys"
  shows "xs = ys"
  using assms(3-5)
proof (induction xs arbitrary: ys)
  case Nil
  then show ?case by simp
next
  case (Cons x xs)
  from Cons.prems(3) obtain y ys' where ys: "ys = y # ys'"
    by (cases ys) auto
  have "x \<in> set ys" using Cons.prems(3) by (metis list.set_intros(1) set_mset_mset)
  then have xy: "\<not> cmp x y"
    using Cons.prems(2) irrefl unfolding ys by auto
  have "y \<in> set (x # xs)" using Cons.prems(3) unfolding ys by (metis list.set_intros(1) set_mset_mset)
  then have yx: "\<not> cmp y x"
    using Cons.prems(1) irrefl by auto
  have "x = y" using total [OF xy yx] .
  moreover have "xs = ys'"
    using Cons.IH [of ys'] Cons.prems \<open>x = y\<close> unfolding ys by simp
  ultimately show ?case unfolding ys by simp
qed


lemma sorted_wrt_strict:
  assumes total: "\<And>x y. \<not> cmp x y \<Longrightarrow> \<not> cmp y x \<Longrightarrow> x = y"
    and "sorted_wrt (\<lambda>x y. \<not> cmp y x) xs" and "distinct xs"
  shows "sorted_wrt cmp xs"
  using assms(2,3)
proof (induction xs)
  case Nil
  show ?case by simp
next
  case (Cons x xs)
  have "cmp x y" if "y \<in> set xs" for y
  proof (rule ccontr)
    assume "\<not> cmp x y"
    moreover have "\<not> cmp y x" using Cons.prems(1) that by simp
    ultimately have "x = y" by (rule total)
    with Cons.prems(2) that show False by simp
  qed
  with Cons show ?case by simp
qed

lemma top_k_by_value_cmp_asym: "top_k_by_value_cmp x y \<Longrightarrow> \<not> top_k_by_value_cmp y x"
  by (auto simp add: top_k_by_value_cmp_def split: if_splits)

lemma top_k_by_value_cmp_irrefl: "\<not> top_k_by_value_cmp x x"
  by (simp add: top_k_by_value_cmp_def)

lemma top_k_by_value_cmp_trans:
  "\<not> top_k_by_value_cmp y x \<Longrightarrow> \<not> top_k_by_value_cmp z y \<Longrightarrow> \<not> top_k_by_value_cmp z x"
  by (auto simp add: top_k_by_value_cmp_def split: if_splits)

lemma top_k_by_value_cmp_total:
  "\<not> top_k_by_value_cmp x y \<Longrightarrow> \<not> top_k_by_value_cmp y x \<Longrightarrow> x = y"
  by (auto simp add: top_k_by_value_cmp_def prod_eq_iff split: if_splits)

lemma top_k_by_value_eq: "top_k_by_value m k = take k (ranges_sort m top_k_by_value_cmp)"
  by (simp add: top_k_by_value_def top_k_def to_sorted_pairs_def Let_def)

lemma top_k_by_value_any_sort:
  assumes "mset ys = mset m" and "sorted_wrt (\<lambda>a b. \<not> top_k_by_value_cmp b a) ys"
  shows "take k ys = top_k_by_value m k"
proof -
  have "ys = ranges_sort m top_k_by_value_cmp"
  proof (rule sorted_rearrangement_unique [where cmp = top_k_by_value_cmp])
    show "\<not> top_k_by_value_cmp x x" for x :: "'a \<times> 'b" by (rule top_k_by_value_cmp_irrefl)
    show "\<not> top_k_by_value_cmp x y \<Longrightarrow> \<not> top_k_by_value_cmp y x \<Longrightarrow> x = y" for x y :: "'a \<times> 'b"
      by (rule top_k_by_value_cmp_total)
    show "sorted_wrt (\<lambda>a b. \<not> top_k_by_value_cmp b a) ys" by (rule assms(2))
    show "sorted_wrt (\<lambda>a b. \<not> top_k_by_value_cmp b a) (ranges_sort m top_k_by_value_cmp)"
      by (rule sorted_ranges_sort [OF top_k_by_value_cmp_asym top_k_by_value_cmp_trans])
    show "mset ys = mset (ranges_sort m top_k_by_value_cmp)"
      by (simp add: assms(1) mset_ranges_sort)
  qed
  then show ?thesis by (simp add: top_k_by_value_eq)
qed

lemma top_k_by_value_sorted:
  "sorted_wrt (\<lambda>a b. \<not> top_k_by_value_cmp b a) (top_k_by_value m k)"
  unfolding top_k_by_value_eq
  by (rule sorted_wrt_take)
    (rule sorted_ranges_sort [OF top_k_by_value_cmp_asym top_k_by_value_cmp_trans])

lemma top_k_by_value_distinct_keys:
  assumes "distinct (map fst m)"
  shows "distinct (map fst (top_k_by_value m k))"
proof -
  have "mset (map fst (ranges_sort m top_k_by_value_cmp)) = mset (map fst m)"
    by (simp add: mset_ranges_sort)
  then have "distinct (map fst (ranges_sort m top_k_by_value_cmp))"
    using assms by (metis mset_eq_imp_distinct_iff)
  then show ?thesis
    unfolding top_k_by_value_eq take_map [symmetric] by (rule distinct_take)
qed


text \<open>
  Claim C9. Keys and values are of linearly ordered types. Let \<open>m\<close> list the entries of
  a map and \<open>m'\<close> the entries of the map formed from \<open>top_k_by_value m k\<close>, each in
  whatever order the container yields them. Then
  \<^verbatim>\<open>top_k_by_value\<close> with the same \<open>k\<close> on \<open>m'\<close> returns the sequence it
  returned on \<open>m\<close>. That sequence is strictly ordered by the comparator (value
  descending, key ascending among equal values), and it is the only possible one: every
  rearrangement of the entries that the comparator leaves sorted has it as its first \<open>k\<close>
  entries.
\<close>

theorem top_k_by_value_idempotent:
  assumes "distinct (map fst m)"
    and "distinct (map fst m')"
    and "map_of m' = map_of (top_k_by_value m k)"
  shows "top_k_by_value m' k = top_k_by_value m k
    \<and> sorted_wrt top_k_by_value_cmp (top_k_by_value m k)
    \<and> (\<forall>ys. mset ys = mset m \<and> sorted_wrt (\<lambda>a b. \<not> top_k_by_value_cmp b a) ys
           \<longrightarrow> take k ys = top_k_by_value m k)"
proof -
  let ?out = "top_k_by_value m k"
  have keys: "distinct (map fst ?out)"
    using assms(1) by (rule top_k_by_value_distinct_keys)
  then have dist: "distinct ?out" by (rule distinct_map [THEN iffD1, THEN conjunct1])
  have sorted: "sorted_wrt (\<lambda>a b. \<not> top_k_by_value_cmp b a) ?out"
    by (rule top_k_by_value_sorted)
  have "set m' = set ?out"
    using map_of_inject_set [OF assms(2) keys] assms(3) by simp
  moreover have "distinct m'"
    using assms(2) by (rule distinct_map [THEN iffD1, THEN conjunct1])
  ultimately have same: "mset ?out = mset m'"
    using dist by (simp add: set_eq_iff_mset_eq_distinct)
  have "take k ?out = top_k_by_value m' k"
    using same sorted by (rule top_k_by_value_any_sort)
  moreover have "length ?out \<le> k"
    by (simp add: top_k_by_value_eq)
  ultimately have idem: "top_k_by_value m' k = ?out" by simp
  have strict: "sorted_wrt top_k_by_value_cmp ?out"
    using top_k_by_value_cmp_total sorted dist by (rule sorted_wrt_strict)
  have unique: "\<forall>ys. mset ys = mset m \<and> sorted_wrt (\<lambda>a b. \<not> top_k_by_value_cmp b a) ys
           \<longrightarrow> take k ys = ?out"
    using top_k_by_value_any_sort by blast
  show ?thesis
    by (rule conjI [OF idem conjI [OF strict unique]])
qed

theorem top_k_by_value_idempotent_witness:
  "distinct (map fst [(3 :: int, 1 :: nat), (6, 3), (1, 2), (4, 1), (2, 2)])
   \<and> distinct (map fst [(1 :: int, 2 :: nat), (6, 3)])
   \<and> map_of [(1 :: int, 2 :: nat), (6, 3)] = map_of (top_k_by_value [(3, 1), (6, 3), (1, 2), (4, 1), (2, 2)] 2)
   \<and> top_k_by_value [(3 :: int, 1 :: nat), (6, 3), (1, 2), (4, 1), (2, 2)] 2 = [(6, 3), (1, 2)]
   \<and> top_k_by_value [(1 :: int, 2 :: nat), (6, 3)] 2 = [(6, 3), (1, 2)]
   \<and> take 2 [(6 :: int, 3 :: nat), (1, 2), (2, 2), (3, 1), (4, 1)] = [(6, 3), (1, 2)]"
proof -
  let ?m = "[(3 :: int, 1 :: nat), (6, 3), (1, 2), (4, 1), (2, 2)]"
  let ?m' = "[(1 :: int, 2 :: nat), (6, 3)]"
  have out: "top_k_by_value ?m 2 = [(6, 3), (1, 2)]"
    by (simp add: top_k_by_value_eq top_k_by_value_cmp_def)
  have h1: "distinct (map fst ?m)" by simp
  have h2: "distinct (map fst ?m')" by simp
  have h3: "map_of ?m' = map_of (top_k_by_value ?m 2)"
    unfolding out by (rule ext) simp
  have h4: "mset [(6 :: int, 3 :: nat), (1, 2), (2, 2), (3, 1), (4, 1)] = mset ?m
      \<and> sorted_wrt (\<lambda>a b. \<not> top_k_by_value_cmp b a) [(6 :: int, 3 :: nat), (1, 2), (2, 2), (3, 1), (4, 1)]"
    by (simp add: top_k_by_value_cmp_def)
  from top_k_by_value_idempotent [OF h1 h2 h3] h4
  have "top_k_by_value ?m' 2 = top_k_by_value ?m 2"
    and "take 2 [(6 :: int, 3 :: nat), (1, 2), (2, 2), (3, 1), (4, 1)] = top_k_by_value ?m 2"
    by blast+
  with h1 h2 h3 out show ?thesis by simp
qed


section \<open>Order and number of calls\<close>

lemma and_then_logged_total:
  "and_then (logged ev (total f)) g (s, l) = g (fst (f s)) (snd (f s), l @ [ev])"
  by (simp add: and_then_def logged_def total_def)

lemma ret_apply: "ret a s = (Inr a, s)"
  by (simp add: ret_def)


lemma count_by_body_logged:
  "\<exists>a' s'. count_by_body (\<lambda>x. logged (KeyCall x) (stateful key x)) x a (s, l)
      = (Inr a', (s', l @ [KeyCall x]))"
  by (simp add: count_by_body_def stateful_def and_then_logged_total ret_apply)

lemma index_by_into_body_logged:
  "\<exists>a' s'. index_by_into_body (\<lambda>x. logged (KeyCall x) (stateful key x))
        (\<lambda>x. logged (ValueCall x) (stateful val x)) ow x a (s, l)
      = (Inr a', (s', l @ [KeyCall x, ValueCall x]))"
  by (simp add: index_by_into_body_def stateful_def and_then_logged_total ret_apply)


lemma group_by_into_body_logged:
  "\<exists>a' s'. group_by_into_body (\<lambda>x. logged (KeyCall x) (stateful key x))
        (\<lambda>x. logged (ValueCall x) (stateful val x)) x a (s, l)
      = (Inr a', (s', l @ [KeyCall x, ValueCall x]))"
  by (simp add: group_by_into_body_def stateful_def and_then_logged_total ret_apply
      split: prod.splits)



lemma partition_by_body_logged:
  "\<exists>a' s'. partition_by_body (\<lambda>x. logged (PredCall x) (stateful pred x))
        (\<lambda>x. logged (ValueCall x) (stateful val x)) x a (s, l)
      = (Inr a', (s', l @ [PredCall x, ValueCall x]))"
  by (simp add: partition_by_body_def stateful_def and_then_logged_total ret_apply)


































section \<open>Exceptions from projections\<close>

lemma first_failure_one:
  assumes "first_failure [discard kc] s1 = Some (e, s2)"
  shows "and_then kc g s1 = (Inl e, s2)"
  using assms by (auto simp add: discard_def and_then_def ret_def split: prod.splits sum.splits)

lemma first_failure_two:
  assumes "first_failure [discard kc, discard vc] s1 = Some (e, s2)"
  shows "and_then kc (\<lambda>k. and_then vc (g k)) s1 = (Inl e, s2)"
  using assms by (auto simp add: discard_def and_then_def ret_def split: prod.splits sum.splits)

lemma first_failure_three:
  assumes "first_failure [discard kc, discard oc, discard vc] s1 = Some (e, s2)"
  shows "and_then kc (\<lambda>k. and_then oc (\<lambda>ov. and_then vc (g k ov))) s1 = (Inl e, s2)"
  using assms by (auto simp add: discard_def and_then_def ret_def split: prod.splits sum.splits)

lemma and_then_ret_success:
  assumes "and_then m (\<lambda>a. ret (f a)) s = (Inr r, s1)"
  shows "\<exists>a. m s = (Inr a, s1)"
  using assms by (auto simp add: and_then_def ret_def split: prod.splits sum.splits)

lemma and_then_fails:
  assumes "m s = (Inl e, s2)"
  shows "and_then m f s = (Inl e, s2)"
  using assms by (simp add: and_then_def)

lemma count_by_fails:
  fixes freq :: "'k \<rightharpoonup> 'w::len word" and e :: 'x
  assumes "count_by pre key s = (Inr freq, s1)"
    and "first_failure [discard (key x)] s1 = Some (e, s2)"
  shows "count_by (pre @ x # post) key s = (Inl e :: 'x + ('k \<rightharpoonup> 'w word), s2)"
  using assms(1) unfolding count_by_def
  by (rule for_each_fails)
    (simp add: count_by_body_def first_failure_one [OF assms(2)])

lemma index_by_into_fails:
  assumes "index_by_into pre key val m overwrite s = (Inr m1, s1)"
    and "first_failure [discard (key x), discard (val x)] s1 = Some (e, s2)"
  shows "index_by_into (pre @ x # post) key val m overwrite s = (Inl e, s2)"
  using assms(1) unfolding index_by_into_def
  by (rule for_each_fails)
    (simp add: index_by_into_body_def first_failure_two [OF assms(2)])

lemma group_reduce_by_fails:
  assumes "group_reduce_by pre key val init op s = (Inr m1, s1)"
    and "first_failure [discard (key x), discard (val x)] s1 = Some (e, s2)"
  shows "group_reduce_by (pre @ x # post) key val init op s = (Inl e, s2)"
  using assms(1) unfolding group_reduce_by_def
  by (rule for_each_fails)
    (simp add: group_reduce_by_body_def first_failure_two [OF assms(2)])

lemma group_by_into_fails:
  assumes "group_by_into pre key val m s = (Inr m1, s1)"
    and "first_failure [discard (key x), discard (val x)] s1 = Some (e, s2)"
  shows "group_by_into (pre @ x # post) key val m s = (Inl e, s2)"
  using assms(1) unfolding group_by_into_def
  by (rule for_each_fails)
    (simp add: group_by_into_body_def first_failure_two [OF assms(2)])

lemma transform_reduce_by_fails:
  assumes "transform_reduce_by pre key val traits s = (Inr m1, s1)"
    and "first_failure [discard (key x), discard (val x)] s1 = Some (e, s2)"
  shows "transform_reduce_by (pre @ x # post) key val traits s = (Inl e, s2)"
  using assms(1) unfolding transform_reduce_by_def transform_reduce_by_impl_def
  by (rule for_each_fails)
    (simp add: transform_reduce_by_body_def first_failure_two [OF assms(2)])

lemma transform_reduce_by_finalize_fails:
  assumes "transform_reduce_by_finalize pre key val traits s = (Inr m1, s1)"
    and "first_failure [discard (key x), discard (val x)] s1 = Some (e, s2)"
  shows "transform_reduce_by_finalize (pre @ x # post) key val traits s = (Inl e, s2)"
proof -
  obtain accs where "for_each pre (transform_reduce_by_body key val traits) Map.empty s = (Inr accs, s1)"
    using assms(1) and_then_ret_success
    unfolding transform_reduce_by_finalize_def transform_reduce_by_impl_finalize_def by fast
  then have "for_each (pre @ x # post) (transform_reduce_by_body key val traits) Map.empty s = (Inl e, s2)"
    by (rule for_each_fails)
      (simp add: transform_reduce_by_body_def first_failure_two [OF assms(2)])
  then show ?thesis
    unfolding transform_reduce_by_finalize_def transform_reduce_by_impl_finalize_def
    by (rule and_then_fails)
qed

lemma extrema_by_fails:
  assumes "extrema_by pre key val order compare s = (Inr out1, s1)"
    and "first_failure [discard (key x), discard (order x), discard (val x)] s1 = Some (e, s2)"
  shows "extrema_by (pre @ x # post) key val order compare s = (Inl e, s2)"
proof -
  obtain states where "for_each pre (extrema_by_body key val order compare) Map.empty s = (Inr states, s1)"
    using assms(1) and_then_ret_success unfolding extrema_by_def by fast
  then have "for_each (pre @ x # post) (extrema_by_body key val order compare) Map.empty s = (Inl e, s2)"
    by (rule for_each_fails)
      (simp add: extrema_by_body_def first_failure_three [OF assms(2)])
  then show ?thesis
    unfolding extrema_by_def by (rule and_then_fails)
qed

lemma partition_by_fails:
  assumes "partition_by pre pred val s = (Inr out1, s1)"
    and "first_failure [discard (pred x), discard (val x)] s1 = Some (e, s2)"
  shows "partition_by (pre @ x # post) pred val s = (Inl e, s2)"
  using assms(1) unfolding partition_by_def
  by (rule for_each_fails)
    (simp add: partition_by_body_def first_failure_two [OF assms(2)])


text \<open>
  Claim C8. Suppose an operation returns on the prefix \<open>pre\<close> of its range, leaving the
  state \<open>s1\<close>, and that on the next element \<open>x\<close> the projections, called in the
  operation's order from \<open>s1\<close>, throw \<open>e\<close> leaving the state \<open>s2\<close>. Then the
  operation on the whole range ends with the exception \<open>e\<close>: its outcome holds no map,
  and the state is the one the throwing call left, so nothing ran after it.
\<close>

theorem projection_failure_propagates:
  fixes freq :: "'k \<rightharpoonup> 'w::len word" and e :: 'x
  shows
  "(count_by pre key s = (Inr freq, s1) \<and> first_failure [discard (key x)] s1 = Some (e, s2)
      \<longrightarrow> count_by (pre @ x # post) key s = (Inl e :: 'x + ('k \<rightharpoonup> 'w word), s2))
 \<and> (index_by_into pre key val m overwrite s = (Inr m1, s1)
      \<and> first_failure [discard (key x), discard (val x)] s1 = Some (e, s2)
      \<longrightarrow> index_by_into (pre @ x # post) key val m overwrite s = (Inl e, s2))
 \<and> (group_reduce_by pre key val init op s = (Inr m2, s1)
      \<and> first_failure [discard (key x), discard (val x)] s1 = Some (e, s2)
      \<longrightarrow> group_reduce_by (pre @ x # post) key val init op s = (Inl e, s2))
 \<and> (group_by_into pre key val buckets s = (Inr m3, s1)
      \<and> first_failure [discard (key x), discard (val x)] s1 = Some (e, s2)
      \<longrightarrow> group_by_into (pre @ x # post) key val buckets s = (Inl e, s2))
 \<and> (transform_reduce_by pre key val traits s = (Inr m4, s1)
      \<and> first_failure [discard (key x), discard (val x)] s1 = Some (e, s2)
      \<longrightarrow> transform_reduce_by (pre @ x # post) key val traits s = (Inl e, s2))
 \<and> (transform_reduce_by_finalize pre key val ftraits s = (Inr m5, s1)
      \<and> first_failure [discard (key x), discard (val x)] s1 = Some (e, s2)
      \<longrightarrow> transform_reduce_by_finalize (pre @ x # post) key val ftraits s = (Inl e, s2))
 \<and> (extrema_by pre key val order compare s = (Inr out1, s1)
      \<and> first_failure [discard (key x), discard (order x), discard (val x)] s1 = Some (e, s2)
      \<longrightarrow> extrema_by (pre @ x # post) key val order compare s = (Inl e, s2))
 \<and> (partition_by pre pred val s = (Inr out2, s1)
      \<and> first_failure [discard (pred x), discard (val x)] s1 = Some (e, s2)
      \<longrightarrow> partition_by (pre @ x # post) pred val s = (Inl e, s2))"
  apply (intro conjI impI)
  subgoal by (elim conjE) (rule count_by_fails)
  subgoal by (elim conjE) (rule index_by_into_fails)
  subgoal by (elim conjE) (rule group_reduce_by_fails)
  subgoal by (elim conjE) (rule group_by_into_fails)
  subgoal by (elim conjE) (rule transform_reduce_by_fails)
  subgoal by (elim conjE) (rule transform_reduce_by_finalize_fails)
  subgoal by (elim conjE) (rule extrema_by_fails)
  subgoal by (elim conjE) (rule partition_by_fails)
  done

lemmas run_defs = and_then_def ret_def pure_proj_def discard_def defaulted_def

theorem projection_failure_propagates_witness:
  "((\<exists>r :: int \<rightharpoonup> 64 word. count_by [1, 2 :: int] (\<lambda>x n. if x = 3 then (Inl ''no key'', Suc n) else (Inr (x mod 2), Suc n)) (0 :: nat) = (Inr r, 2))
    \<and> first_failure [discard ((\<lambda>x n. if x = 3 then (Inl ''no key'', Suc n) else (Inr (x mod 2), Suc n)) (3 :: int))] (2 :: nat) = Some (''no key'', 3)
    \<and> count_by ([1, 2 :: int] @ 3 # [4]) (\<lambda>x n. if x = 3 then (Inl ''no key'', Suc n) else (Inr (x mod 2), Suc n)) (0 :: nat) = (Inl ''no key'' :: string + (int \<rightharpoonup> 64 word), 3))
 \<and> ((\<exists>r :: int \<rightharpoonup> int. index_by_into [1, 2 :: int] (\<lambda>x n. if x = 3 then (Inl ''no key'', Suc n) else (Inr (x mod 2), Suc n)) (pure_proj (\<lambda>x. x)) Map.empty None (0 :: nat) = (Inr r, 2))
    \<and> first_failure [discard ((\<lambda>x n. if x = 3 then (Inl ''no key'', Suc n) else (Inr (x mod 2), Suc n)) (3 :: int)), discard ((pure_proj (\<lambda>x. x)) (3 :: int))] (2 :: nat) = Some (''no key'', 3)
    \<and> index_by_into ([1, 2 :: int] @ 3 # [4]) (\<lambda>x n. if x = 3 then (Inl ''no key'', Suc n) else (Inr (x mod 2), Suc n)) (pure_proj (\<lambda>x. x)) Map.empty None (0 :: nat) = (Inl ''no key'' :: string + (int \<rightharpoonup> int), 3))
 \<and> ((\<exists>r :: int \<rightharpoonup> int list. group_reduce_by [1, 2 :: int] (\<lambda>x n. if x = 3 then (Inl ''no key'', Suc n) else (Inr (x mod 2), Suc n)) (pure_proj (\<lambda>x. x)) [] (\<lambda>acc v. ret (acc @ [v])) (0 :: nat) = (Inr r, 2))
    \<and> first_failure [discard ((\<lambda>x n. if x = 3 then (Inl ''no key'', Suc n) else (Inr (x mod 2), Suc n)) (3 :: int)), discard ((pure_proj (\<lambda>x. x)) (3 :: int))] (2 :: nat) = Some (''no key'', 3)
    \<and> group_reduce_by ([1, 2 :: int] @ 3 # [4]) (\<lambda>x n. if x = 3 then (Inl ''no key'', Suc n) else (Inr (x mod 2), Suc n)) (pure_proj (\<lambda>x. x)) [] (\<lambda>acc v. ret (acc @ [v])) (0 :: nat) = (Inl ''no key'' :: string + (int \<rightharpoonup> int list), 3))
 \<and> ((\<exists>r :: int \<rightharpoonup> int list. group_by_into [1, 2 :: int] (\<lambda>x n. if x = 3 then (Inl ''no key'', Suc n) else (Inr (x mod 2), Suc n)) (pure_proj (\<lambda>x. x)) Map.empty (0 :: nat) = (Inr r, 2))
    \<and> first_failure [discard ((\<lambda>x n. if x = 3 then (Inl ''no key'', Suc n) else (Inr (x mod 2), Suc n)) (3 :: int)), discard ((pure_proj (\<lambda>x. x)) (3 :: int))] (2 :: nat) = Some (''no key'', 3)
    \<and> group_by_into ([1, 2 :: int] @ 3 # [4]) (\<lambda>x n. if x = 3 then (Inl ''no key'', Suc n) else (Inr (x mod 2), Suc n)) (pure_proj (\<lambda>x. x)) Map.empty (0 :: nat) = (Inl ''no key'' :: string + (int \<rightharpoonup> int list), 3))
 \<and> ((\<exists>r :: int \<rightharpoonup> int. transform_reduce_by [1, 2 :: int] (\<lambda>x n. if x = 3 then (Inl ''no key'', Suc n) else (Inr (x mod 2), Suc n)) (pure_proj (\<lambda>x. x)) \<lparr>identity = ret 0, combine = (\<lambda>a v. ret (a + v))\<rparr> (0 :: nat) = (Inr r, 2))
    \<and> first_failure [discard ((\<lambda>x n. if x = 3 then (Inl ''no key'', Suc n) else (Inr (x mod 2), Suc n)) (3 :: int)), discard ((pure_proj (\<lambda>x. x)) (3 :: int))] (2 :: nat) = Some (''no key'', 3)
    \<and> transform_reduce_by ([1, 2 :: int] @ 3 # [4]) (\<lambda>x n. if x = 3 then (Inl ''no key'', Suc n) else (Inr (x mod 2), Suc n)) (pure_proj (\<lambda>x. x)) \<lparr>identity = ret 0, combine = (\<lambda>a v. ret (a + v))\<rparr> (0 :: nat) = (Inl ''no key'' :: string + (int \<rightharpoonup> int), 3))
 \<and> ((\<exists>r :: int \<rightharpoonup> int. transform_reduce_by_finalize [1, 2 :: int] (\<lambda>x n. if x = 3 then (Inl ''no key'', Suc n) else (Inr (x mod 2), Suc n)) (pure_proj (\<lambda>x. x)) \<lparr>identity = ret 0, combine = (\<lambda>a v. ret (a + v)), finalize = (\<lambda>a. 2 * a)\<rparr> (0 :: nat) = (Inr r, 2))
    \<and> first_failure [discard ((\<lambda>x n. if x = 3 then (Inl ''no key'', Suc n) else (Inr (x mod 2), Suc n)) (3 :: int)), discard ((pure_proj (\<lambda>x. x)) (3 :: int))] (2 :: nat) = Some (''no key'', 3)
    \<and> transform_reduce_by_finalize ([1, 2 :: int] @ 3 # [4]) (\<lambda>x n. if x = 3 then (Inl ''no key'', Suc n) else (Inr (x mod 2), Suc n)) (pure_proj (\<lambda>x. x)) \<lparr>identity = ret 0, combine = (\<lambda>a v. ret (a + v)), finalize = (\<lambda>a. 2 * a)\<rparr> (0 :: nat) = (Inl ''no key'' :: string + (int \<rightharpoonup> int), 3))
 \<and> ((\<exists>r :: int \<rightharpoonup> int extrema_result. extrema_by [1, 2 :: int] (\<lambda>x n. if x = 3 then (Inl ''no key'', Suc n) else (Inr (x mod 2), Suc n)) (pure_proj (\<lambda>x. x)) (pure_proj (\<lambda>x. x)) ranges_less (0 :: nat) = (Inr r, 2))
    \<and> first_failure [discard ((\<lambda>x n. if x = 3 then (Inl ''no key'', Suc n) else (Inr (x mod 2), Suc n)) (3 :: int)), discard ((pure_proj (\<lambda>x. x)) (3 :: int)), discard ((pure_proj (\<lambda>x. x)) (3 :: int))] (2 :: nat) = Some (''no key'', 3)
    \<and> extrema_by ([1, 2 :: int] @ 3 # [4]) (\<lambda>x n. if x = 3 then (Inl ''no key'', Suc n) else (Inr (x mod 2), Suc n)) (pure_proj (\<lambda>x. x)) (pure_proj (\<lambda>x. x)) ranges_less (0 :: nat) = (Inl ''no key'' :: string + (int \<rightharpoonup> int extrema_result), 3))
 \<and> ((\<exists>r :: int partition_result. partition_by [1, 2 :: int] (\<lambda>x n. if x = 3 then (Inl ''no key'', Suc n) else (Inr (1 < x), Suc n)) (pure_proj (\<lambda>x. x)) (0 :: nat) = (Inr r, 2))
    \<and> first_failure [discard ((\<lambda>x n. if x = 3 then (Inl ''no key'', Suc n) else (Inr (1 < x), Suc n)) (3 :: int)), discard ((pure_proj (\<lambda>x. x)) (3 :: int))] (2 :: nat) = Some (''no key'', 3)
    \<and> partition_by ([1, 2 :: int] @ 3 # [4]) (\<lambda>x n. if x = 3 then (Inl ''no key'', Suc n) else (Inr (1 < x), Suc n)) (pure_proj (\<lambda>x. x)) (0 :: nat) = (Inl ''no key'' :: string + (int partition_result), 3))"
proof -
  let ?K = "\<lambda>(x :: int) (n :: nat). if x = 3 then (Inl ''no key'', Suc n) else (Inr (x mod 2), Suc n)"
  let ?P = "\<lambda>(x :: int) (n :: nat). if x = 3 then (Inl ''no key'', Suc n) else (Inr (1 < x), Suc n)"
  let ?V = "pure_proj (\<lambda>x :: int. x) :: int \<Rightarrow> (string, nat, int) eff"
  let ?O = "pure_proj (\<lambda>x :: int. x) :: int \<Rightarrow> (string, nat, int) eff"
  let ?OP = "(\<lambda>acc v. ret (acc @ [v])) :: int list \<Rightarrow> int \<Rightarrow> (string, nat, int list) eff"
  let ?TR = "\<lparr>identity = ret 0, combine = (\<lambda>a v. ret (a + v))\<rparr> :: (string, nat, int, int) traits"
  let ?FTR = "\<lparr>identity = ret 0, combine = (\<lambda>a v. ret (a + v)), finalize = (\<lambda>a. 2 * a)\<rparr> :: (string, nat, int, int, int) finalizing_traits"
  note T = projection_failure_propagates [where key = ?K and x = 3 and pre = "[1, 2]" and post = "[4]"
      and s = 0 and ?s1.0 = 2 and ?s2.0 = 3 and e = "''no key''" and val = ?V and pred = ?P and order = ?O
      and m = Map.empty and overwrite = None and init = "[]" and op = ?OP and buckets = Map.empty
      and traits = ?TR and ftraits = ?FTR and compare = ranges_less]
  have f1: "first_failure [discard (?K 3)] 2 = Some (''no key'', 3)"
    by (simp add: run_defs)
  have f2: "first_failure [discard (?K 3), discard (?V 3)] 2 = Some (''no key'', 3)"
    by (simp add: run_defs)
  have f3: "first_failure [discard (?K 3), discard (?O 3), discard (?V 3)] 2 = Some (''no key'', 3)"
    by (simp add: run_defs)
  have f4: "first_failure [discard (?P 3), discard (?V 3)] 2 = Some (''no key'', 3)"
    by (simp add: run_defs)
  obtain r1 :: "int \<rightharpoonup> 64 word" where p1: "count_by [1, 2] ?K 0 = (Inr r1, 2)"
    by (simp add: count_by_def count_by_body_def increment_def try_emplace_def run_defs)
  have c1: "count_by ([1, 2] @ 3 # [4]) ?K 0 = (Inl ''no key'' :: string + (int \<rightharpoonup> 64 word), 3)"
    by (rule T [THEN conjunct1, THEN mp, OF conjI, OF p1 f1])
  have w1: "(\<exists>r :: int \<rightharpoonup> 64 word. count_by [1, 2] ?K 0 = (Inr r, 2))
      \<and> first_failure [discard (?K 3)] 2 = Some (''no key'', 3)
      \<and> count_by ([1, 2] @ 3 # [4]) ?K 0 = (Inl ''no key'' :: string + (int \<rightharpoonup> 64 word), 3)"
    using p1 f1 c1 by blast
  obtain r2 :: "int \<rightharpoonup> int" where p2: "index_by_into [1, 2] ?K ?V Map.empty None 0 = (Inr r2, 2)"
    by (simp add: index_by_into_def index_by_into_body_def run_defs)
  have c2: "index_by_into ([1, 2] @ 3 # [4]) ?K ?V Map.empty None 0 = (Inl ''no key'' :: string + (int \<rightharpoonup> int), 3)"
    by (rule T [THEN conjunct2, THEN conjunct1, THEN mp, OF conjI, OF p2 f2])
  have w2: "(\<exists>r :: int \<rightharpoonup> int. index_by_into [1, 2] ?K ?V Map.empty None 0 = (Inr r, 2))
      \<and> first_failure [discard (?K 3), discard (?V 3)] 2 = Some (''no key'', 3)
      \<and> index_by_into ([1, 2] @ 3 # [4]) ?K ?V Map.empty None 0 = (Inl ''no key'' :: string + (int \<rightharpoonup> int), 3)"
    using p2 f2 c2 by blast
  obtain r3 :: "int \<rightharpoonup> int list" where p3: "group_reduce_by [1, 2] ?K ?V [] ?OP 0 = (Inr r3, 2)"
    by (simp add: group_reduce_by_def group_reduce_by_body_def try_emplace_def run_defs)
  have c3: "group_reduce_by ([1, 2] @ 3 # [4]) ?K ?V [] ?OP 0 = (Inl ''no key'' :: string + (int \<rightharpoonup> int list), 3)"
    by (rule T [THEN conjunct2, THEN conjunct2, THEN conjunct1, THEN mp, OF conjI, OF p3 f2])
  have w3: "(\<exists>r :: int \<rightharpoonup> int list. group_reduce_by [1, 2] ?K ?V [] ?OP 0 = (Inr r, 2))
      \<and> first_failure [discard (?K 3), discard (?V 3)] 2 = Some (''no key'', 3)
      \<and> group_reduce_by ([1, 2] @ 3 # [4]) ?K ?V [] ?OP 0 = (Inl ''no key'' :: string + (int \<rightharpoonup> int list), 3)"
    using p3 f2 c3 by blast
  obtain r4 :: "int \<rightharpoonup> int list" where p4: "group_by_into [1, 2] ?K ?V Map.empty 0 = (Inr r4, 2)"
    by (simp add: group_by_into_def group_by_into_body_def try_emplace_def run_defs)
  have c4: "group_by_into ([1, 2] @ 3 # [4]) ?K ?V Map.empty 0 = (Inl ''no key'' :: string + (int \<rightharpoonup> int list), 3)"
    by (rule T [THEN conjunct2, THEN conjunct2, THEN conjunct2, THEN conjunct1, THEN mp, OF conjI, OF p4 f2])
  have w4: "(\<exists>r :: int \<rightharpoonup> int list. group_by_into [1, 2] ?K ?V Map.empty 0 = (Inr r, 2))
      \<and> first_failure [discard (?K 3), discard (?V 3)] 2 = Some (''no key'', 3)
      \<and> group_by_into ([1, 2] @ 3 # [4]) ?K ?V Map.empty 0 = (Inl ''no key'' :: string + (int \<rightharpoonup> int list), 3)"
    using p4 f2 c4 by blast
  obtain r5 :: "int \<rightharpoonup> int" where p5: "transform_reduce_by [1, 2] ?K ?V ?TR 0 = (Inr r5, 2)"
    by (simp add: transform_reduce_by_def transform_reduce_by_impl_def transform_reduce_by_body_def try_emplace_def run_defs)
  have c5: "transform_reduce_by ([1, 2] @ 3 # [4]) ?K ?V ?TR 0 = (Inl ''no key'' :: string + (int \<rightharpoonup> int), 3)"
    by (rule T [THEN conjunct2, THEN conjunct2, THEN conjunct2, THEN conjunct2, THEN conjunct1, THEN mp, OF conjI, OF p5 f2])
  have w5: "(\<exists>r :: int \<rightharpoonup> int. transform_reduce_by [1, 2] ?K ?V ?TR 0 = (Inr r, 2))
      \<and> first_failure [discard (?K 3), discard (?V 3)] 2 = Some (''no key'', 3)
      \<and> transform_reduce_by ([1, 2] @ 3 # [4]) ?K ?V ?TR 0 = (Inl ''no key'' :: string + (int \<rightharpoonup> int), 3)"
    using p5 f2 c5 by blast
  obtain r6 :: "int \<rightharpoonup> int" where p6: "transform_reduce_by_finalize [1, 2] ?K ?V ?FTR 0 = (Inr r6, 2)"
    by (simp add: transform_reduce_by_finalize_def transform_reduce_by_impl_finalize_def transform_reduce_by_body_def try_emplace_def run_defs)
  have c6: "transform_reduce_by_finalize ([1, 2] @ 3 # [4]) ?K ?V ?FTR 0 = (Inl ''no key'' :: string + (int \<rightharpoonup> int), 3)"
    by (rule T [THEN conjunct2, THEN conjunct2, THEN conjunct2, THEN conjunct2, THEN conjunct2, THEN conjunct1, THEN mp, OF conjI, OF p6 f2])
  have w6: "(\<exists>r :: int \<rightharpoonup> int. transform_reduce_by_finalize [1, 2] ?K ?V ?FTR 0 = (Inr r, 2))
      \<and> first_failure [discard (?K 3), discard (?V 3)] 2 = Some (''no key'', 3)
      \<and> transform_reduce_by_finalize ([1, 2] @ 3 # [4]) ?K ?V ?FTR 0 = (Inl ''no key'' :: string + (int \<rightharpoonup> int), 3)"
    using p6 f2 c6 by blast
  obtain r7 :: "int \<rightharpoonup> int extrema_result" where p7: "extrema_by [1, 2] ?K ?V ?O ranges_less 0 = (Inr r7, 2)"
    by (simp add: extrema_by_def extrema_by_body_def extrema_update_def try_emplace_def run_defs)
  have c7: "extrema_by ([1, 2] @ 3 # [4]) ?K ?V ?O ranges_less 0 = (Inl ''no key'' :: string + (int \<rightharpoonup> int extrema_result), 3)"
    by (rule T [THEN conjunct2, THEN conjunct2, THEN conjunct2, THEN conjunct2, THEN conjunct2, THEN conjunct2, THEN conjunct1, THEN mp, OF conjI, OF p7 f3])
  have w7: "(\<exists>r :: int \<rightharpoonup> int extrema_result. extrema_by [1, 2] ?K ?V ?O ranges_less 0 = (Inr r, 2))
      \<and> first_failure [discard (?K 3), discard (?O 3), discard (?V 3)] 2 = Some (''no key'', 3)
      \<and> extrema_by ([1, 2] @ 3 # [4]) ?K ?V ?O ranges_less 0 = (Inl ''no key'' :: string + (int \<rightharpoonup> int extrema_result), 3)"
    using p7 f3 c7 by blast
  obtain r8 :: "int partition_result" where p8: "partition_by [1, 2] ?P ?V 0 = (Inr r8, 2)"
    by (simp add: partition_by_def partition_by_body_def run_defs)
  have c8: "partition_by ([1, 2] @ 3 # [4]) ?P ?V 0 = (Inl ''no key'' :: string + (int partition_result), 3)"
    by (rule T [THEN conjunct2, THEN conjunct2, THEN conjunct2, THEN conjunct2, THEN conjunct2, THEN conjunct2, THEN conjunct2, THEN mp, OF conjI, OF p8 f4])
  have w8: "(\<exists>r :: int partition_result. partition_by [1, 2] ?P ?V 0 = (Inr r, 2))
      \<and> first_failure [discard (?P 3), discard (?V 3)] 2 = Some (''no key'', 3)
      \<and> partition_by ([1, 2] @ 3 # [4]) ?P ?V 0 = (Inl ''no key'' :: string + (int partition_result), 3)"
    using p8 f4 c8 by blast
  show ?thesis
    by (intro conjI [OF w1] conjI [OF w2] conjI [OF w3] conjI [OF w4] conjI [OF w5] conjI [OF w6] conjI [OF w7]) (rule w8)
qed


section \<open>Predicate before value projection\<close>

lemma partition_by_snoc:
  assumes "partition_by pre pred val s = (Inr out1, s1)"
    and "pred x s1 = (Inr b, s2)"
    and "val x s2 = (Inr v, s3)"
  shows "partition_by (pre @ [x]) pred val s =
     (Inr (if b then out1\<lparr>trues := trues out1 @ [v]\<rparr> else out1\<lparr>falses := falses out1 @ [v]\<rparr>), s3)"
  using assms
  by (simp add: partition_by_def for_each_append partition_by_body_def and_then_def ret_def)

lemma partition_elements_prefix:
  fixes p :: "'a \<Rightarrow> bool" and f :: "'a \<Rightarrow> 'r \<times> 'a"
  assumes "n \<le> length s"
  shows "for_each [0..<n] (partition_by_body (elem_read p) (elem_take f)) \<lparr>falses = [], trues = []\<rparr> s =
     (Inr \<lparr>falses = map (\<lambda>a. fst (f a)) (filter (\<lambda>a. \<not> p a) (take n s)),
           trues = map (\<lambda>a. fst (f a)) (filter p (take n s))\<rparr> :: 'x + 'r partition_result,
      map (\<lambda>a. snd (f a)) (take n s) @ drop n s)"
  using assms
proof (induction n)
  case 0
  show ?case by simp
next
  case (Suc n)
  then have n: "n < length s" by simp
  let ?s1 = "map (\<lambda>a. snd (f a)) (take n s) @ drop n s"
  have at: "?s1 ! n = s ! n"
    using n by (simp add: nth_append)
  have upd: "?s1[n := snd (f (s ! n))] = map (\<lambda>a. snd (f a)) (take (Suc n) s) @ drop (Suc n) s"
    using n by (simp add: take_Suc_conv_app_nth list_update_append Cons_nth_drop_Suc [symmetric])
  have body: "partition_by_body (elem_read p) (elem_take f) n out ?s1 =
      (Inr (if p (s ! n) then out\<lparr>trues := trues out @ [fst (f (s ! n))]\<rparr>
            else out\<lparr>falses := falses out @ [fst (f (s ! n))]\<rparr>) :: 'x + 'r partition_result,
       map (\<lambda>a. snd (f a)) (take (Suc n) s) @ drop (Suc n) s)" for out :: "'r partition_result"
    unfolding upd [symmetric]
    by (simp add: partition_by_body_def elem_read_def elem_take_def and_then_def ret_def at)
  have prefix: "for_each [0..<n] (partition_by_body (elem_read p) (elem_take f)) \<lparr>falses = [], trues = []\<rparr> s =
     (Inr \<lparr>falses = map (\<lambda>a. fst (f a)) (filter (\<lambda>a. \<not> p a) (take n s)),
           trues = map (\<lambda>a. fst (f a)) (filter p (take n s))\<rparr> :: 'x + 'r partition_result, ?s1)"
    using Suc.IH n by simp
  show ?case
    using n by (simp add: for_each_append prefix body take_Suc_conv_app_nth)
qed

lemma partition_by_elements:
  "partition_by [0..<length s] (elem_read p) (elem_take f) s =
     (Inr \<lparr>falses = map (\<lambda>a. fst (f a)) (filter (\<lambda>a. \<not> p a) s),
           trues = map (\<lambda>a. fst (f a)) (filter p s)\<rparr>,
      map (\<lambda>a. snd (f a)) s)"
  using partition_elements_prefix [of "length s" s p f] by (simp add: partition_by_def)


text \<open>
  Claim C10. \<^verbatim>\<open>partition_by\<close> calls the predicate on an element before the value
  projection. For a container whose elements the value projection changes (moves from), every
  element is routed by the predicate on its content before the projection touched it. In
  general, with any state the two share: when the predicate returns \<open>b\<close> on \<open>x\<close> in
  the state the prefix left, and the value projection, run after it, returns \<open>v\<close>, then
  \<open>v\<close> goes to the branch \<open>b\<close> names.
\<close>

theorem partition_by_predicate_first:
  "partition_by [0..<length c] (elem_read p) (elem_take f) c =
     (Inr \<lparr>falses = map (\<lambda>a. fst (f a)) (filter (\<lambda>a. \<not> p a) c),
           trues = map (\<lambda>a. fst (f a)) (filter p c)\<rparr>,
      map (\<lambda>a. snd (f a)) c)
 \<and> (partition_by pre pred val s = (Inr out1, s1) \<and> pred x s1 = (Inr b, s2) \<and> val x s2 = (Inr v, s3)
      \<longrightarrow> partition_by (pre @ [x]) pred val s =
            (Inr (if b then out1\<lparr>trues := trues out1 @ [v]\<rparr>
                  else out1\<lparr>falses := falses out1 @ [v]\<rparr>), s3))"
  by (intro conjI impI, rule partition_by_elements) (elim conjE, rule partition_by_snoc)

theorem partition_by_predicate_first_witness:
  "partition_by [0..<length [''on'', ''stop'', ''cab'', ''a'', ''longword'']]
       (elem_read (\<lambda>w. 2 < length w)) (elem_take (\<lambda>w. (w, [])))
       [''on'', ''stop'', ''cab'', ''a'', ''longword'']
     = (Inr \<lparr>falses = [''on'', ''a''], trues = [''stop'', ''cab'', ''longword'']\<rparr> :: unit + _,
        [[], [], [], [], []])
 \<and> partition_by [0, 1, 2, 3] (elem_read (\<lambda>w. 2 < length w)) (elem_take (\<lambda>w. (w, [])))
       [''on'', ''stop'', ''cab'', ''a'', ''longword'']
     = (Inr \<lparr>falses = [''on'', ''a''], trues = [''stop'', ''cab'']\<rparr> :: unit + _,
        [[], [], [], [], ''longword''])
 \<and> elem_read (\<lambda>w. 2 < length w) 4 [[], [], [], [], ''longword'']
     = (Inr True :: unit + _, [[], [], [], [], ''longword''])
 \<and> elem_take (\<lambda>w. (w, [])) 4 [[], [], [], [], ''longword'']
     = (Inr ''longword'' :: unit + _, [[], [], [], [], []])
 \<and> partition_by ([0, 1, 2, 3] @ [4]) (elem_read (\<lambda>w. 2 < length w)) (elem_take (\<lambda>w. (w, [])))
       [''on'', ''stop'', ''cab'', ''a'', ''longword'']
     = (Inr \<lparr>falses = [''on'', ''a''], trues = [''stop'', ''cab'', ''longword'']\<rparr> :: unit + _,
        [[], [], [], [], []])"
proof -
  let ?c = "[''on'', ''stop'', ''cab'', ''a'', ''longword'']"
  let ?p = "\<lambda>w :: string. 2 < length w"
  let ?f = "\<lambda>w :: string. (w, [] :: string)"
  let ?pred = "elem_read ?p :: nat \<Rightarrow> (unit, string list, bool) eff"
  let ?val = "elem_take ?f :: nat \<Rightarrow> (unit, string list, string) eff"
  note T = partition_by_predicate_first [where c = ?c and p = ?p and f = ?f
      and pre = "[0, 1, 2, 3]" and pred = ?pred and val = ?val and s = ?c and x = 4]
  have whole: "partition_by [0..<length ?c] ?pred ?val ?c
      = (Inr \<lparr>falses = [''on'', ''a''], trues = [''stop'', ''cab'', ''longword'']\<rparr>, [[], [], [], [], []])"
    unfolding T [THEN conjunct1] by simp
  have pre: "partition_by [0, 1, 2, 3] ?pred ?val ?c
      = (Inr \<lparr>falses = [''on'', ''a''], trues = [''stop'', ''cab'']\<rparr>, [[], [], [], [], ''longword''])"
    by (simp add: partition_by_def partition_by_body_def elem_read_def elem_take_def and_then_def ret_def)
  have b: "?pred 4 [[], [], [], [], ''longword''] = (Inr True, [[], [], [], [], ''longword''])"
    by (simp add: elem_read_def)
  have v: "?val 4 [[], [], [], [], ''longword''] = (Inr ''longword'', [[], [], [], [], []])"
    by (simp add: elem_take_def)
  have "partition_by ([0, 1, 2, 3] @ [4]) ?pred ?val ?c
      = (Inr (if True then \<lparr>falses = [''on'', ''a''], trues = [''stop'', ''cab'']\<rparr>
                 \<lparr>trues := trues \<lparr>falses = [''on'', ''a''], trues = [''stop'', ''cab'']\<rparr> @ [''longword'']\<rparr>
              else \<lparr>falses = [''on'', ''a''], trues = [''stop'', ''cab'']\<rparr>
                 \<lparr>falses := falses \<lparr>falses = [''on'', ''a''], trues = [''stop'', ''cab'']\<rparr> @ [''longword'']\<rparr>),
         [[], [], [], [], []])"
    by (rule T [THEN conjunct2, THEN mp, OF conjI, OF pre conjI, OF b v])
  then have last: "partition_by ([0, 1, 2, 3] @ [4]) ?pred ?val ?c
      = (Inr \<lparr>falses = [''on'', ''a''], trues = [''stop'', ''cab'', ''longword'']\<rparr>, [[], [], [], [], []])"
    by simp
  show ?thesis
    by (intro conjI whole pre b v last)
qed

end
